theory Spec2Isabelle
  imports Complex_Main "HOL-Library.Sublist"
begin

section \<open>Python exceptions as values\<close>

text \<open>
  Every function of the repository that can raise returns \<open>error + 'a\<close>, with \<open>Inl\<close>
  for the exception. \<open>Raised\<close> stands for an exception thrown by a caller-supplied
  transformation function.
\<close>

datatype error = TypeError | ZeroDivisionError | KeyError | ValueError | SyntaxError
  | ParseError | Raised string

section \<open>jobwatcher/plugins/sge.py\<close>

subsection \<open>Records consumed from \<open>common.schedulers.sge_commands\<close>\<close>

text \<open>
  Modelled from the spec: the classes \<open>SgeHost\<close> and \<open>SgeJob\<close> of
  \<open>common.schedulers.sge_commands\<close>, a module that is not among the sources. The
  data model of the specification gives a compute node a name, a state that is a set of
  tokens, and the integers \<open>slotsUsed\<close> and \<open>slotsReserved\<close>; it gives a pending
  job an identifier, an integer number of slots and a state. The planner reads three
  attributes of a host (\<open>slots_used\<close>, \<open>slots_reserved\<close>, \<open>state\<close>) and one of a
  job (\<open>slots\<close>). On the integer counters Python's \<open>int(...)\<close> is the identity; the
  state is tested with \<open>in\<close>.
\<close>

record SgeHost =
  name :: string
  slots_used :: int
  slots_reserved :: int
  state :: "string set"

record SgeJob =
  number :: string
  slots :: int
  job_state :: string

text \<open>
  The constants and the two adapters imported from \<open>common.schedulers.sge_commands\<close>
  are taken as a parameter. \<open>get_compute_nodes_info\<close> is the
  dictionary (host name to host, in iteration order) that the call returns;
  \<open>get_pending_jobs_info\<close> maps the keyword arguments \<open>max_slots_filter\<close> and
  \<open>skip_if_state\<close> to the list of pending jobs.
\<close>

record sge_commands =
  SGE_BUSY_STATES :: "string list"
  SGE_HOLD_STATE :: string
  SGE_ORPHANED_STATE :: string
  get_compute_nodes_info :: "(string \<times> SgeHost) list"
  get_pending_jobs_info :: "int \<Rightarrow> string \<Rightarrow> SgeJob list"

definition dict_values :: "('k \<times> 'v) list \<Rightarrow> 'v list" where
  "dict_values d = map snd d"

subsection \<open>\<open>_get_required_slots\<close>\<close>

text \<open>
  Lines 24 to 28: one entry per node, \<open>slots - slots_used - slots_reserved\<close>, then
  sorted ascending. This is the list logged as "slots before job match".
\<close>

definition slots_before_job_match :: "sge_commands \<Rightarrow> int \<Rightarrow> int list" where
  "slots_before_job_match sc s =
     sort (map (\<lambda>node. s - slots_used node - slots_reserved node)
       (dict_values (get_compute_nodes_info sc)))"

text \<open>
  Lines 36 to 40, the inner loop \<open>for i in range(len(avail_slots))\<close> started at index
  \<open>i\<close>: the first entry that can hold the job is decremented in place and the scan
  stops. The result is the list and the flag \<open>found_slot\<close>.
\<close>

function scan_slots :: "int \<Rightarrow> int list \<Rightarrow> nat \<Rightarrow> int list \<times> bool" where
  "scan_slots job_slots avail_slots i =
     (if i < length avail_slots then
        (if job_slots \<le> avail_slots ! i
         then (avail_slots[i := avail_slots ! i - job_slots], True)
         else scan_slots job_slots avail_slots (Suc i))
      else (avail_slots, False))"
  by pat_completeness auto
termination
  by (relation "measure (\<lambda>(job_slots, avail_slots, i). length avail_slots - i)") auto

declare scan_slots.simps [simp del]

text \<open>
  Lines 34 to 42, the outer loop over the pending jobs, on the state
  \<open>(avail_slots, slots)\<close>; the running total \<open>slots\<close> of the source is \<open>required\<close>
  here, since \<open>slots\<close> names the attribute of a job.
\<close>

fun match_jobs :: "SgeJob list \<Rightarrow> int list \<times> int \<Rightarrow> int list \<times> int" where
  "match_jobs [] st = st"
| "match_jobs (job # pending_jobs) (avail_slots, required) =
     (case scan_slots (slots job) avail_slots 0 of
        (avail_slots', found_slot) \<Rightarrow>
          match_jobs pending_jobs
            (avail_slots', if \<not> found_slot then required + slots job else required))"

text \<open>
  The pending jobs asked of the adapter (lines 31 and 32), and the state of the loop
  when it ends: its first component is the list logged as "slots after job match", its
  second the value returned.
\<close>

definition pending_jobs_of :: "sge_commands \<Rightarrow> int \<Rightarrow> int \<Rightarrow> SgeJob list" where
  "pending_jobs_of sc s max_size =
     (let max_cluster_slots = max_size * s
      in get_pending_jobs_info sc max_cluster_slots (SGE_HOLD_STATE sc))"

definition job_match :: "sge_commands \<Rightarrow> int \<Rightarrow> int \<Rightarrow> int list \<times> int" where
  "job_match sc s max_size =
     match_jobs (pending_jobs_of sc s max_size) (slots_before_job_match sc s, 0)"

definition slots_after_job_match :: "sge_commands \<Rightarrow> int \<Rightarrow> int \<Rightarrow> int list" where
  "slots_after_job_match sc s max_size = fst (job_match sc s max_size)"

text \<open>
  \<open>instance_properties.get("slots")\<close> is \<open>None\<close> for a dictionary without the key, and
  the product \<open>max_size * None\<close> of line 31 raises \<open>TypeError\<close> (as does the
  subtraction of line 27 when there is a node).
\<close>

definition get_required_slots :: "sge_commands \<Rightarrow> (string \<rightharpoonup> int) \<Rightarrow> int \<Rightarrow> error + int" where
  "get_required_slots sc instance_properties max_size =
     (case instance_properties ''slots'' of
        None \<Rightarrow> Inl TypeError
      | Some s \<Rightarrow> Inr (snd (job_match sc s max_size)))"

subsection \<open>\<open>get_required_nodes\<close>\<close>

text \<open>
  \<open>-(-required_slots // vcpus)\<close>: Python's \<open>//\<close> on integers is floor division, as
  \<open>div\<close> on \<open>int\<close> is, and raises \<open>ZeroDivisionError\<close> for a zero divisor.
\<close>

definition get_required_nodes :: "sge_commands \<Rightarrow> (string \<rightharpoonup> int) \<Rightarrow> int \<Rightarrow> error + int" where
  "get_required_nodes sc instance_properties max_size =
     (case get_required_slots sc instance_properties max_size of
        Inl e \<Rightarrow> Inl e
      | Inr required_slots \<Rightarrow>
          (case instance_properties ''slots'' of
             None \<Rightarrow> Inl TypeError
           | Some vcpus \<Rightarrow>
               if vcpus = 0 then Inl ZeroDivisionError
               else Inr (- ((- required_slots) div vcpus))))"

subsection \<open>\<open>get_busy_nodes\<close>\<close>

definition in_busy_state :: "string list \<Rightarrow> SgeHost \<Rightarrow> bool" where
  "in_busy_state busy_states node = list_ex (\<lambda>busy_state. busy_state \<in> state node) busy_states"

fun count_busy :: "string list \<Rightarrow> string \<Rightarrow> SgeHost list \<Rightarrow> int \<Rightarrow> int" where
  "count_busy busy_states orphaned [] busy_nodes = busy_nodes"
| "count_busy busy_states orphaned (node # nodes) busy_nodes =
     count_busy busy_states orphaned nodes
       (if in_busy_state busy_states node \<or> slots_used node > 0 \<or> slots_reserved node > 0
        then (if orphaned \<in> state node then busy_nodes else busy_nodes + 1)
        else busy_nodes)"

definition get_busy_nodes :: "sge_commands \<Rightarrow> int" where
  "get_busy_nodes sc =
     count_busy (SGE_BUSY_STATES sc) (SGE_ORPHANED_STATE sc)
       (dict_values (get_compute_nodes_info sc)) 0"

section \<open>common/schedulers/converters.py\<close>

subsection \<open>XML trees and Python values\<close>

text \<open>
  An element of \<open>xml.etree.ElementTree\<close>: its tag, its attribute dictionary, its text
  (\<open>None\<close> for an element without character data before its first child, as for
  \<open><a/>\<close> and \<open><a></a>\<close>) and its children in document order. The selector for the
  attribute \<open>text\<close> is \<open>elem_text\<close>. Characters are ASCII throughout.
\<close>

datatype Element =
  Element (tag: string) (attrib: "(string \<times> string) list") (elem_text: "string option")
    (children: "Element list")

text \<open>
  The values that the mapper produces or hands to a transformation: \<open>None\<close>, a string,
  an element, the single-entry dictionary of the attribute rule, the list built for a
  repeated tag, and integers (what \<open>int\<close> as a transformation returns).
\<close>

datatype pyval =
  PyNone | PyStr string | PyInt int | PyXml Element
  | PyDict "(string \<times> pyval) list" | PyList "pyval list"

text \<open>An object is its attribute dictionary; \<open>setattr(obj, f, v)\<close> is \<open>obj(f \<mapsto> v)\<close>.\<close>

type_synonym obj = "string \<rightharpoonup> pyval"

text \<open>
  One entry of \<open>MAPPINGS\<close>: a dictionary read at the keys \<open>"field"\<close>,
  \<open>"transformation"\<close> and \<open>"xml_elem_type"\<close>, each of which may be absent. A
  transformation is any Python callable: it returns a value or raises.
\<close>

record mapping =
  field :: "string option"
  transformation :: "(pyval \<Rightarrow> error + pyval) option"
  xml_elem_type :: "string option"

text \<open>
  A record type: its \<open>MAPPINGS\<close> dictionary in iteration order, and the attribute
  dictionary that its constructor \<open>obj_type()\<close> builds from the defaults of
  \<open>__init__\<close>.
\<close>

record obj_type =
  MAPPINGS :: "(string \<times> mapping) list"
  init :: obj

subsection \<open>The library calls\<close>

text \<open>
  \<open>str.strip()\<close> of Python 3 removes the leading and trailing characters for which
  \<open>str.isspace\<close> holds; among ASCII characters these are the ten below.
\<close>

definition isspace :: "char \<Rightarrow> bool" where
  "isspace c \<longleftrightarrow>
     c \<in> set [CHR 0x09, CHR 0x0A, CHR 0x0B, CHR 0x0C, CHR 0x0D,
               CHR 0x1C, CHR 0x1D, CHR 0x1E, CHR 0x1F, CHR 0x20]"

definition strip :: "string \<Rightarrow> string" where
  "strip s = rev (dropWhile isspace (rev (dropWhile isspace s)))"

text \<open>
  The XML library is a parameter: \<open>fromstring\<close> is the parser (it returns the root
  element or raises \<open>ParseError\<close>), \<open>elementpath\<close> the evaluator of path expressions
  (\<open>a/b\<close>, \<open>.//a\<close>, \<open>a[@name='x']\<close>, and so on; it may raise \<open>SyntaxError\<close>).
\<close>

record ElementTree =
  fromstring :: "string \<Rightarrow> error + Element"
  elementpath :: "Element \<Rightarrow> string \<Rightarrow> error + Element list"

text \<open>
  \<open>Element.findall(path)\<close>. For a path that is a plain tag name (letters, digits,
  \<open>_\<close> and \<open>-\<close> only, so no path syntax) the library selects the children of the
  element that carry this tag, in document order; any other path goes to the path
  evaluator.
\<close>

definition tag_char :: "char \<Rightarrow> bool" where
  "tag_char c \<longleftrightarrow>
     c \<in> set ''abcdefghijklmnopqrstuvwxyzABCDEFGHIJKLMNOPQRSTUVWXYZ0123456789_-''"

definition plain_tag :: "string \<Rightarrow> bool" where
  "plain_tag path \<longleftrightarrow> path \<noteq> [] \<and> list_all tag_char path"

definition findall :: "ElementTree \<Rightarrow> Element \<Rightarrow> string \<Rightarrow> error + Element list" where
  "findall ET xroot path =
     (if plain_tag path then Inr (filter (\<lambda>e. tag e = path) (children xroot))
      else elementpath ET xroot path)"

text \<open>
  \<open>str.splitlines()\<close> of Python 3: the string is cut at every line boundary
  (\<open>\r\n\<close> counts as one; the ASCII boundaries are the seven below), the boundaries
  are dropped, and no empty last line is produced. The first
  argument of \<open>splitlines_from\<close> is the line read so far.
\<close>

definition linebreak :: "char \<Rightarrow> bool" where
  "linebreak c \<longleftrightarrow>
     c \<in> set [CHR 0x0A, CHR 0x0D, CHR 0x0B, CHR 0x0C, CHR 0x1C, CHR 0x1D, CHR 0x1E]"

fun splitlines_from :: "string \<Rightarrow> string \<Rightarrow> string list" where
  "splitlines_from line [] = (if line = [] then [] else [line])"
| "splitlines_from line (c # cs) =
     (if c = CHR 0x0D then
        (case cs of
           [] \<Rightarrow> [line]
         | d # ds \<Rightarrow>
             if d = CHR 0x0A then line # splitlines_from [] ds
             else line # splitlines_from [] (d # ds))
      else if linebreak c then line # splitlines_from [] cs
      else splitlines_from (line @ [c]) cs)"

definition splitlines :: "string \<Rightarrow> string list" where
  "splitlines s = splitlines_from [] s"

text \<open>
  \<open>str.split(sep)\<close>: cut at every occurrence of \<open>sep\<close>, read from the left;
  \<open>ValueError\<close> for the empty separator. The second argument of \<open>split_from\<close> is the
  item read so far.
\<close>

function split_from :: "string \<Rightarrow> string \<Rightarrow> string \<Rightarrow> string list" where
  "split_from sep item s =
     (if s = [] then [item]
      else if sep \<noteq> [] \<and> take (length sep) s = sep
        then item # split_from sep [] (drop (length sep) s)
      else split_from sep (item @ [hd s]) (tl s))"
  by pat_completeness auto
termination
  by (relation "measure (\<lambda>(sep, item, s). length s)") auto

declare split_from.simps [simp del]

definition py_split :: "string \<Rightarrow> string \<Rightarrow> error + string list" where
  "py_split s sep = (if sep = [] then Inl ValueError else Inr (split_from sep [] s))"

subsection \<open>\<open>from_xml_to_obj\<close>\<close>

text \<open>
  The variable \<open>root\<close> of the source is \<open>xroot\<close> here, and the loop variable
  \<open>tag\<close> is \<open>key\<close>.
\<close>

text \<open>
  Lines 43 to 83, the value taken from one matched element. For the element type
  \<open>"xml"\<close> it is the element. Otherwise it is \<open>result.text\<close>, stripped when it is a
  non-empty string (and \<open>None\<close> when the element has no text), and then, for an element
  with a \<open>name\<close> attribute, the dictionary \<open>{result.attrib["name"]: input}\<close>.
\<close>

definition text_input :: "Element \<Rightarrow> pyval" where
  "text_input result =
     (case elem_text result of
        None \<Rightarrow> PyNone
      | Some s \<Rightarrow> PyStr (if s \<noteq> [] then strip s else s))"

definition extract_input :: "string \<Rightarrow> Element \<Rightarrow> pyval" where
  "extract_input elem_type result =
     (if elem_type = ''xml'' then PyXml result
      else
        (let input = text_input result
         in case map_of (attrib result) ''name'' of
              Some n \<Rightarrow> PyDict [(n, input)]
            | None \<Rightarrow> input))"

definition transformed :: "(pyval \<Rightarrow> error + pyval) option \<Rightarrow> pyval \<Rightarrow> error + pyval" where
  "transformed transformation_func input =
     (case transformation_func of None \<Rightarrow> Inr input | Some f \<Rightarrow> f input)"

text \<open>
  Lines 41 to 84, the loop over the matched elements; the last argument is the list
  \<open>values\<close> built so far. An exception of the transformation ends the loop.
\<close>

fun collect_values ::
  "(pyval \<Rightarrow> error + pyval) option \<Rightarrow> string \<Rightarrow> Element list \<Rightarrow> pyval list \<Rightarrow> error + pyval list"
where
  "collect_values transformation_func elem_type [] vals = Inr vals"
| "collect_values transformation_func elem_type (result # results) vals =
     (case transformed transformation_func (extract_input elem_type result) of
        Inl e \<Rightarrow> Inl e
      | Inr v \<Rightarrow> collect_values transformation_func elem_type results (vals @ [v]))"

text \<open>
  The element type \<open>mapping.get("xml_elem_type", "text")\<close>, and the values that one
  entry of \<open>MAPPINGS\<close> yields (lines 38 to 84).
\<close>

definition elem_type_of :: "mapping \<Rightarrow> string" where
  "elem_type_of m = (case xml_elem_type m of None \<Rightarrow> ''text'' | Some t \<Rightarrow> t)"

definition values_of :: "ElementTree \<Rightarrow> Element \<Rightarrow> string \<Rightarrow> mapping \<Rightarrow> error + pyval list" where
  "values_of ET xroot key m =
     (case findall ET xroot key of
        Inl e \<Rightarrow> Inl e
      | Inr results \<Rightarrow> collect_values (transformation m) (elem_type_of m) results [])"

text \<open>
  Lines 85 and 86: nothing is assigned for an empty list of values; one value is
  assigned as it is, several as the list. \<open>mapping["field"]\<close> raises \<open>KeyError\<close> when
  the entry has no field.
\<close>

definition assign_values :: "mapping \<Rightarrow> pyval list \<Rightarrow> obj \<Rightarrow> error + obj" where
  "assign_values m vals ob =
     (if vals \<noteq> [] then
        (case field m of
           None \<Rightarrow> Inl KeyError
         | Some f \<Rightarrow> Inr (ob(f \<mapsto> (if length vals = 1 then vals ! 0 else PyList vals))))
      else Inr ob)"

text \<open>The body of the loop over \<open>MAPPINGS.items()\<close> for one entry, and the loop.\<close>

definition map_tag :: "ElementTree \<Rightarrow> Element \<Rightarrow> string \<times> mapping \<Rightarrow> obj \<Rightarrow> error + obj" where
  "map_tag ET xroot entry ob =
     (case values_of ET xroot (fst entry) (snd entry) of
        Inl e \<Rightarrow> Inl e
      | Inr vals \<Rightarrow> assign_values (snd entry) vals ob)"

fun map_tags :: "ElementTree \<Rightarrow> Element \<Rightarrow> (string \<times> mapping) list \<Rightarrow> obj \<Rightarrow> error + obj" where
  "map_tags ET xroot [] ob = Inr ob"
| "map_tags ET xroot (entry # entries) ob =
     (case map_tag ET xroot entry ob of
        Inl e \<Rightarrow> Inl e
      | Inr ob' \<Rightarrow> map_tags ET xroot entries ob')"

definition from_xml_to_obj :: "ElementTree \<Rightarrow> string \<Rightarrow> obj_type \<Rightarrow> error + obj" where
  "from_xml_to_obj ET xml T =
     (let ob = init T
      in case fromstring ET xml of
           Inl e \<Rightarrow> Inl e
         | Inr xroot \<Rightarrow> map_tags ET xroot (MAPPINGS T) ob)"

subsection \<open>\<open>from_table_to_obj_list\<close>\<close>

text \<open>
  \<open>if mapping:\<close> holds for a dictionary that is not empty. Lines 117 to 122, the loop
  over \<open>zip(row.split(separator), columns)\<close>: \<open>mappings.get(column)\<close> is the lookup
  in the dictionary.
\<close>

definition truthy :: "mapping \<Rightarrow> bool" where
  "truthy m \<longleftrightarrow> field m \<noteq> None \<or> transformation m \<noteq> None \<or> xml_elem_type m \<noteq> None"

fun map_items :: "(string \<times> mapping) list \<Rightarrow> (string \<times> string) list \<Rightarrow> obj \<Rightarrow> error + obj" where
  "map_items mappings [] ob = Inr ob"
| "map_items mappings ((item, column) # rest) ob =
     (case map_of mappings column of
        None \<Rightarrow> map_items mappings rest ob
      | Some m \<Rightarrow>
          if truthy m then
            (case transformed (transformation m) (PyStr item) of
               Inl e \<Rightarrow> Inl e
             | Inr v \<Rightarrow>
                 (case field m of
                    None \<Rightarrow> Inl KeyError
                  | Some f \<Rightarrow> map_items mappings rest (ob(f \<mapsto> v))))
          else map_items mappings rest ob)"

text \<open>Lines 115 to 123, the loop over the rows; the last argument is \<open>results\<close>.\<close>

fun map_rows ::
  "obj_type \<Rightarrow> string list \<Rightarrow> string \<Rightarrow> string list \<Rightarrow> obj list \<Rightarrow> error + obj list"
where
  "map_rows T columns separator [] results = Inr results"
| "map_rows T columns separator (row # rows) results =
     (let ob = init T
      in case py_split row separator of
           Inl e \<Rightarrow> Inl e
         | Inr items \<Rightarrow>
             (case map_items (MAPPINGS T) (zip items columns) ob of
                Inl e \<Rightarrow> Inl e
              | Inr ob' \<Rightarrow> map_rows T columns separator rows (results @ [ob'])))"

definition from_table_to_obj_list :: "string \<Rightarrow> obj_type \<Rightarrow> string \<Rightarrow> error + obj list" where
  "from_table_to_obj_list table T separator =
     (let table_lines = splitlines table
      in if length table_lines > 1 then
           (case py_split (table_lines ! 0) separator of
              Inl e \<Rightarrow> Inl e
            | Inr columns \<Rightarrow> map_rows T columns separator (drop 1 table_lines) [])
         else Inr [])"

section \<open>Notions used to state the properties\<close>

subsection \<open>The planner\<close>

text \<open>
  The index that the scan started at \<open>i\<close> decrements: the least index from \<open>i\<close> on
  whose entry can hold the demand \<open>d\<close>.
\<close>

definition first_fit :: "int \<Rightarrow> int list \<Rightarrow> nat \<Rightarrow> nat option" where
  "first_fit d avail i = List.find (\<lambda>k. d \<le> avail ! k) [i..<length avail]"

text \<open>
  The placements that the loop makes for a list of demands: for each job, the index of
  the entry it decrements, or \<open>None\<close> when it is added to the total.
\<close>

fun placements :: "int list \<Rightarrow> int list \<Rightarrow> nat option list" where
  "placements [] avail = []"
| "placements (d # demands) avail =
     first_fit d avail 0 # placements demands (fst (scan_slots d avail 0))"

text \<open>
  An assignment gives every job an entry of the list of available slots, or none. The
  load of an entry is the demand assigned to it; the unmet demand is that of the jobs
  without an entry. An assignment is admissible when every entry that receives a job
  exists and has available slots for its whole load.
\<close>

definition load :: "int list \<Rightarrow> nat option list \<Rightarrow> nat \<Rightarrow> int" where
  "load demands asg i = sum_list (map fst (filter (\<lambda>(d, a). a = Some i) (zip demands asg)))"

definition unmet :: "int list \<Rightarrow> nat option list \<Rightarrow> int" where
  "unmet demands asg = sum_list (map fst (filter (\<lambda>(d, a). a = None) (zip demands asg)))"

definition admissible :: "int list \<Rightarrow> int list \<Rightarrow> nat option list \<Rightarrow> bool" where
  "admissible avail demands asg \<longleftrightarrow>
     length asg = length demands \<and>
     (\<forall>a\<in>set asg. case a of
        None \<Rightarrow> True
      | Some i \<Rightarrow> i < length avail \<and> load demands asg i \<le> avail ! i)"

subsection \<open>The mapper\<close>

text \<open>
  The elements of a tree in document order, and in the words of the specification the
  elements "matching \<open>k\<close> anywhere in the tree, in document order".
\<close>

fun iter :: "Element \<Rightarrow> Element list" where
  "iter (Element t a x cs) = Element t a x cs # concat (map iter cs)"

definition matching_anywhere :: "Element \<Rightarrow> string \<Rightarrow> Element list" where
  "matching_anywhere xroot key = filter (\<lambda>e. tag e = key) (iter xroot)"

text \<open>
  The attribute \<open>f\<close> of the object that a call returned; \<open>None\<close> when the call
  raised or the object has no such attribute.
\<close>

definition getattr :: "error + obj \<Rightarrow> string \<Rightarrow> pyval option" where
  "getattr res f = (case res of Inl e \<Rightarrow> None | Inr ob \<Rightarrow> ob f)"

section \<open>Scenarios\<close>

text \<open>
  The planner scenario of the specification: three nodes of four slots whose available
  slots are 4, 0 and 2, and pending jobs that ask for 1, 3 and 5 slots. The adapter
  for the pending jobs drops the jobs above the slot filter and those in the hold state.
\<close>

definition scenario_nodes :: "(string \<times> SgeHost) list" where
  "scenario_nodes =
     [(''node3'', \<lparr>name = ''node3'', slots_used = 0, slots_reserved = 0, state = {}\<rparr>),
      (''node1'', \<lparr>name = ''node1'', slots_used = 3, slots_reserved = 1, state = {}\<rparr>),
      (''node2'', \<lparr>name = ''node2'', slots_used = 1, slots_reserved = 1, state = {}\<rparr>)]"

definition scenario_jobs :: "SgeJob list" where
  "scenario_jobs =
     [\<lparr>number = ''101'', slots = 1, job_state = ''qw''\<rparr>,
      \<lparr>number = ''102'', slots = 3, job_state = ''qw''\<rparr>,
      \<lparr>number = ''103'', slots = 5, job_state = ''qw''\<rparr>]"

definition scenario_sge :: sge_commands where
  "scenario_sge =
     \<lparr>SGE_BUSY_STATES = [''u'', ''C'', ''s'', ''D'', ''E'', ''P'', ''o''],
      SGE_HOLD_STATE = ''hqw'',
      SGE_ORPHANED_STATE = ''o'',
      get_compute_nodes_info = scenario_nodes,
      get_pending_jobs_info =
        (\<lambda>max_slots_filter skip_if_state.
           filter (\<lambda>job. slots job \<le> max_slots_filter \<and> job_state job \<noteq> skip_if_state)
             scenario_jobs)\<rparr>"

definition scenario_properties :: "string \<rightharpoonup> int" where
  "scenario_properties = [''slots'' \<mapsto> 4]"

text \<open>
  The busy scenario of the specification: node A runs two slots, node B is orphaned
  and runs three, node C is idle.
\<close>

definition busy_scenario_sge :: sge_commands where
  "busy_scenario_sge =
     \<lparr>SGE_BUSY_STATES = [''unreachable'', ''suspended'', ''orphaned''],
      SGE_HOLD_STATE = ''hqw'',
      SGE_ORPHANED_STATE = ''orphaned'',
      get_compute_nodes_info =
        [(''A'', \<lparr>name = ''A'', slots_used = 2, slots_reserved = 0, state = {}\<rparr>),
         (''B'', \<lparr>name = ''B'', slots_used = 3, slots_reserved = 0, state = {''orphaned''}\<rparr>),
         (''C'', \<lparr>name = ''C'', slots_used = 0, slots_reserved = 0, state = {}\<rparr>)],
      get_pending_jobs_info = (\<lambda>max_slots_filter skip_if_state. [])\<rparr>"

text \<open>
  A job listing: the elements of one pending job, two of them with a \<open>name\<close>
  attribute, one without text, and one nested below a child of the root.
\<close>

definition vcs_request :: Element where
  "vcs_request =
     Element ''hard_request'' [(''name'', ''vcs''), (''resource_contribution'', ''0.000000'')]
       (Some ''TRUE'') []"

definition vcs_build_request :: Element where
  "vcs_build_request =
     Element ''hard_request''
       [(''name'', ''vcs_build''), (''resource_contribution'', ''0.000000'')]
       (Some '' TRUE '') []"

definition scenario_job_list :: Element where
  "scenario_job_list =
     Element ''job_list'' [(''state'', ''pending'')] (Some ''  '')
       [Element ''JB_job_number'' [] (Some ''12422'') [],
        Element ''queue_name'' [] None [],
        Element ''slots'' [] (Some ''1'') [],
        Element ''predecessors'' [] None [Element ''JB_job_number'' [] (Some ''12421'') []],
        vcs_request,
        vcs_build_request]"

text \<open>
  A library instance for the scenario: its parser knows the one document, and its path
  evaluator accepts no path expression.
\<close>

definition scenario_etree :: ElementTree where
  "scenario_etree =
     \<lparr>fromstring = (\<lambda>xml. if xml = ''<job_list/>'' then Inr scenario_job_list else Inl ParseError),
      elementpath = (\<lambda>xroot path. Inl SyntaxError)\<rparr>"

text \<open>
  Record types for the scenario. The first maps every tag as text and without
  transformation; the second takes the hard requests as subtrees.
\<close>

definition text_entry :: "string \<Rightarrow> mapping" where
  "text_entry f = \<lparr>field = Some f, transformation = None, xml_elem_type = None\<rparr>"

definition subtree_entry :: "string \<Rightarrow> mapping" where
  "subtree_entry f = \<lparr>field = Some f, transformation = None, xml_elem_type = Some ''xml''\<rparr>"

definition scenario_defaults :: obj where
  "scenario_defaults =
     [''number'' \<mapsto> PyNone, ''slots'' \<mapsto> PyInt 0, ''hostname'' \<mapsto> PyStr ''unset'',
      ''hard_request'' \<mapsto> PyNone, ''tasks'' \<mapsto> PyStr ''all'']"

definition scenario_job_type :: obj_type where
  "scenario_job_type =
     \<lparr>MAPPINGS =
        [(''JB_job_number'', text_entry ''number''),
         (''slots'', text_entry ''slots''),
         (''queue_name'', text_entry ''hostname''),
         (''hard_request'', text_entry ''hard_request''),
         (''tasks'', text_entry ''tasks'')],
      init = scenario_defaults\<rparr>"

definition scenario_subtree_type :: obj_type where
  "scenario_subtree_type =
     \<lparr>MAPPINGS =
        [(''hard_request'', subtree_entry ''hard_request'')],
      init = scenario_defaults\<rparr>"

text \<open>
  A record type whose three source keys write the same field \<open>v\<close>, and the document
  \<open><r><a>1</a><b>x</b><b>y</b></r>\<close>: the key \<open>a\<close> has one match, the key \<open>b\<close> two
  and the key \<open>c\<close> none.
\<close>

definition shared_field_root :: Element where
  "shared_field_root =
     Element ''r'' [] None
       [Element ''a'' [] (Some ''1'') [],
        Element ''b'' [] (Some ''x'') [],
        Element ''b'' [] (Some ''y'') []]"

definition shared_field_etree :: ElementTree where
  "shared_field_etree =
     \<lparr>fromstring =
        (\<lambda>xml. if xml = ''<r><a>1</a><b>x</b><b>y</b></r>'' then Inr shared_field_root
               else Inl ParseError),
      elementpath = (\<lambda>xroot path. Inl SyntaxError)\<rparr>"

definition shared_field_type :: obj_type where
  "shared_field_type =
     \<lparr>MAPPINGS = [(''a'', text_entry ''v''), (''b'', text_entry ''v''), (''c'', text_entry ''v'')],
      init = [''v'' \<mapsto> PyStr ''default'']\<rparr>"

section \<open>The planner: lemmas\<close>

subsection \<open>The scan decrements the first entry that fits\<close>

lemma scan_slots_first_fit:
  "scan_slots d avail i =
     (case first_fit d avail i of
        None \<Rightarrow> (avail, False)
      | Some k \<Rightarrow> (avail[k := avail ! k - d], True))"
proof (induction d avail i rule: scan_slots.induct)
  case (1 d avail i)
  show ?case
  proof (cases "i < length avail")
    case True
    then have upt: "[i..<length avail] = i # [Suc i..<length avail]"
      by (simp add: upt_conv_Cons)
    show ?thesis
    proof (cases "d \<le> avail ! i")
      case True
      with \<open>i < length avail\<close> upt show ?thesis
        by (subst scan_slots.simps) (simp add: first_fit_def)
    next
      case False
      with \<open>i < length avail\<close> upt "1.IH" show ?thesis
        by (subst scan_slots.simps) (simp add: first_fit_def)
    qed
  next
    case False
    then show ?thesis
      by (subst scan_slots.simps) (simp add: first_fit_def)
  qed
qed

lemma first_fit_SomeD:
  assumes "first_fit d avail i = Some k"
  shows "i \<le> k" "k < length avail" "d \<le> avail ! k"
    "\<And>j. i \<le> j \<Longrightarrow> j < k \<Longrightarrow> \<not> d \<le> avail ! j"
proof -
  from assms obtain n where n: "n < length [i..<length avail]"
    "d \<le> avail ! ([i..<length avail] ! n)" "k = [i..<length avail] ! n"
    "\<forall>m<n. \<not> d \<le> avail ! ([i..<length avail] ! m)"
    unfolding first_fit_def find_Some_iff by blast
  from n(1) have k: "k = i + n" and len: "i + n < length avail"
    using n(3) by simp_all
  show "i \<le> k" "k < length avail" "d \<le> avail ! k"
    using n(2) k len by simp_all
  fix j assume j: "i \<le> j" "j < k"
  then have "j - i < n" using k by simp
  with n(4) have "\<not> d \<le> avail ! ([i..<length avail] ! (j - i))" by blast
  moreover have "[i..<length avail] ! (j - i) = j"
    using j k len by simp
  ultimately show "\<not> d \<le> avail ! j" by simp
qed

lemma first_fit_NoneD:
  assumes "first_fit d avail i = None"
  shows "i \<le> j \<Longrightarrow> j < length avail \<Longrightarrow> \<not> d \<le> avail ! j"
  using assms unfolding first_fit_def find_None_iff by auto

lemma scan_slots_length [simp]: "length (fst (scan_slots d avail i)) = length avail"
  by (simp add: scan_slots_first_fit split: option.split)

lemma scan_slots_cases:
  assumes "scan_slots d avail 0 = (avail', found)"
  shows "(\<not> found \<and> avail' = avail) \<or>
         (found \<and> (\<exists>k<length avail. d \<le> avail ! k \<and> avail' = avail[k := avail ! k - d]
                      \<and> 0 \<le> avail' ! k))"
proof (cases "first_fit d avail 0")
  case None
  with assms show ?thesis by (simp add: scan_slots_first_fit)
next
  case (Some k)
  then have "k < length avail" "d \<le> avail ! k"
    by (rule first_fit_SomeD(2), rule first_fit_SomeD(3))
  moreover from Some assms have "found" "avail' = avail[k := avail ! k - d]"
    by (simp_all add: scan_slots_first_fit)
  ultimately show ?thesis by auto
qed

subsection \<open>Sums and signs through the loop\<close>

lemma sum_list_update_int:
  "k < length xs \<Longrightarrow> sum_list (xs[k := x]) = sum_list xs + x - (xs ! k :: int)"
proof (induction xs arbitrary: k)
  case Nil
  then show ?case by simp
next
  case (Cons y ys)
  then show ?case by (cases k) simp_all
qed

lemma scan_slots_sum:
  "sum_list (fst (scan_slots d avail 0)) + (if snd (scan_slots d avail 0) then d else 0)
     = sum_list avail"
proof (cases "first_fit d avail 0")
  case None
  then show ?thesis by (simp add: scan_slots_first_fit)
next
  case (Some k)
  then have "k < length avail" by (rule first_fit_SomeD(2))
  with Some show ?thesis by (simp add: scan_slots_first_fit sum_list_update_int)
qed

lemma match_jobs_length [simp]: "length (fst (match_jobs jobs (avail, r))) = length avail"
proof (induction jobs arbitrary: avail r)
  case Nil
  show ?case by simp
next
  case (Cons job jobs)
  obtain avail' found where s: "scan_slots (slots job) avail 0 = (avail', found)"
    by (cases "scan_slots (slots job) avail 0")
  then have "length avail' = length avail"
    using scan_slots_length [of "slots job" avail 0] by simp
  with s Cons.IH show ?case by simp
qed

lemma match_jobs_conservation:
  "snd (match_jobs jobs (avail, r)) + (sum_list avail - sum_list (fst (match_jobs jobs (avail, r))))
     = r + sum_list (map slots jobs)"
proof (induction jobs arbitrary: avail r)
  case Nil
  show ?case by simp
next
  case (Cons job jobs)
  obtain avail' found where s: "scan_slots (slots job) avail 0 = (avail', found)"
    by (cases "scan_slots (slots job) avail 0")
  have "sum_list avail' + (if found then slots job else 0) = sum_list avail"
    using scan_slots_sum [of "slots job" avail] s by simp
  with s Cons.IH [of avail' "if \<not> found then r + slots job else r"] show ?case
    by (simp split: if_splits)
qed

lemma sum_list_diff_nth:
  fixes xs ys :: "int list"
  assumes "length ys = length xs"
  shows "(\<Sum>i<length xs. xs ! i - ys ! i) = sum_list xs - sum_list ys"
proof -
  have "(\<Sum>i<length xs. xs ! i - ys ! i) = (\<Sum>i<length xs. xs ! i) - (\<Sum>i<length xs. ys ! i)"
    by (rule sum_subtractf)
  also have "(\<Sum>i<length xs. xs ! i) = sum_list xs"
    by (simp add: sum_list_sum_nth atLeast0LessThan)
  also have "(\<Sum>i<length xs. ys ! i) = sum_list ys"
    using assms by (simp add: sum_list_sum_nth atLeast0LessThan)
  finally show ?thesis .
qed

lemma scan_slots_nonneg:
  assumes "i < length avail" "0 \<le> avail ! i"
  shows "0 \<le> fst (scan_slots d avail 0) ! i"
proof (cases "first_fit d avail 0")
  case None
  with assms show ?thesis by (simp add: scan_slots_first_fit)
next
  case (Some k)
  then have "d \<le> avail ! k" "k < length avail"
    by (rule first_fit_SomeD(3), rule first_fit_SomeD(2))
  with Some assms show ?thesis by (cases "i = k") (simp_all add: scan_slots_first_fit)
qed

lemma match_jobs_nonneg:
  "i < length avail \<Longrightarrow> 0 \<le> avail ! i \<Longrightarrow> 0 \<le> fst (match_jobs jobs (avail, r)) ! i"
proof (induction jobs arbitrary: avail r)
  case Nil
  then show ?case by simp
next
  case (Cons job jobs)
  obtain avail' found where s: "scan_slots (slots job) avail 0 = (avail', found)"
    by (cases "scan_slots (slots job) avail 0")
  have "length avail' = length avail" "0 \<le> avail' ! i"
    using scan_slots_length [of "slots job" avail 0]
      scan_slots_nonneg [OF Cons.prems, of "slots job"] s
    by simp_all
  with s Cons.IH [of avail'] Cons.prems show ?case by simp
qed

lemma scan_slots_entry:
  assumes "i < length avail"
  shows "fst (scan_slots d avail 0) ! i = avail ! i \<or> 0 \<le> fst (scan_slots d avail 0) ! i"
proof (cases "first_fit d avail 0")
  case None
  then show ?thesis by (simp add: scan_slots_first_fit)
next
  case (Some k)
  then have "d \<le> avail ! k" "k < length avail"
    by (rule first_fit_SomeD(3), rule first_fit_SomeD(2))
  with Some assms show ?thesis by (cases "i = k") (simp_all add: scan_slots_first_fit)
qed

lemma match_jobs_entry:
  "i < length avail \<Longrightarrow>
     fst (match_jobs jobs (avail, r)) ! i = avail ! i \<or> 0 \<le> fst (match_jobs jobs (avail, r)) ! i"
proof (induction jobs arbitrary: avail r)
  case Nil
  then show ?case by simp
next
  case (Cons job jobs)
  obtain avail' found where s: "scan_slots (slots job) avail 0 = (avail', found)"
    by (cases "scan_slots (slots job) avail 0")
  let ?r = "if \<not> found then r + slots job else r"
  have len: "i < length avail'"
    using scan_slots_length [of "slots job" avail 0] s Cons.prems by simp
  have step: "avail' ! i = avail ! i \<or> 0 \<le> avail' ! i"
    using scan_slots_entry [OF Cons.prems, of "slots job"] s by simp
  have final: "match_jobs (job # jobs) (avail, r) = match_jobs jobs (avail', ?r)"
    using s by simp
  show ?case
  proof (cases "0 \<le> avail' ! i")
    case True
    with len have "0 \<le> fst (match_jobs jobs (avail', ?r)) ! i"
      by (rule match_jobs_nonneg)
    then show ?thesis unfolding final by (rule disjI2)
  next
    case False
    with step have "avail' ! i = avail ! i" by simp
    with Cons.IH [OF len, of ?r] show ?thesis unfolding final by simp
  qed
qed

lemma match_jobs_decrements_bounded:
  "(\<Sum>i<length avail. avail ! i - fst (match_jobs jobs (avail, r)) ! i)
     \<le> (\<Sum>i<length avail. max 0 (avail ! i))"
proof (rule sum_mono)
  fix i assume "i \<in> {..<length avail}"
  then have "i < length avail" by simp
  from match_jobs_entry [OF this, of jobs r]
  show "avail ! i - fst (match_jobs jobs (avail, r)) ! i \<le> max 0 (avail ! i)"
    by auto
qed

subsection \<open>The placements of the loop are an admissible assignment\<close>

lemma load_Cons: "load (d # ds) (p # asg) i = (if p = Some i then d else 0) + load ds asg i"
  by (simp add: load_def)

lemma unmet_Cons: "unmet (d # ds) (p # asg) = (if p = None then d else 0) + unmet ds asg"
  by (simp add: unmet_def)

lemma load_unused:
  assumes "Some i \<notin> set asg"
  shows "load ds asg i = 0"
proof -
  from assms have "filter (\<lambda>(d, a). a = Some i) (zip ds asg) = []"
    by (auto simp: filter_empty_conv dest: set_zip_rightD)
  then show ?thesis by (simp add: load_def)
qed

lemma length_placements [simp]: "length (placements ds avail) = length ds"
  by (induction ds arbitrary: avail) simp_all

lemma match_jobs_unmet:
  "snd (match_jobs jobs (avail, r))
     = r + unmet (map slots jobs) (placements (map slots jobs) avail)"
proof (induction jobs arbitrary: avail r)
  case Nil
  show ?case by (simp add: unmet_def)
next
  case (Cons job jobs)
  show ?case
  proof (cases "first_fit (slots job) avail 0")
    case None
    with Cons.IH [of avail "r + slots job"] show ?thesis
      by (simp add: scan_slots_first_fit unmet_Cons)
  next
    case (Some k)
    with Cons.IH [of "avail[k := avail ! k - slots job]" r] show ?thesis
      by (simp add: scan_slots_first_fit unmet_Cons)
  qed
qed

lemma placements_admissible: "admissible avail ds (placements ds avail)"
proof (induction ds arbitrary: avail)
  case Nil
  show ?case by (simp add: admissible_def)
next
  case (Cons d ds)
  show ?case
  proof (cases "first_fit d avail 0")
    case None
    with Cons.IH [of avail] show ?thesis
      by (auto simp: admissible_def scan_slots_first_fit load_Cons split: option.splits)
  next
    case (Some k)
    define avail1 where "avail1 = avail[k := avail ! k - d]"
    define asg where "asg = placements ds avail1"
    from Some have k: "k < length avail" "d \<le> avail ! k"
      by (rule first_fit_SomeD(2), rule first_fit_SomeD(3))
    have IH: "admissible avail1 ds asg"
      unfolding asg_def by (rule Cons.IH)
    have pl: "placements (d # ds) avail = Some k # asg"
      using Some by (simp add: scan_slots_first_fit asg_def avail1_def)
    have "i < length avail \<and> load (d # ds) (Some k # asg) i \<le> avail ! i"
      if "Some i \<in> set (Some k # asg)" for i
    proof (cases "Some i \<in> set asg")
      case True
      with IH have i: "i < length avail1" "load ds asg i \<le> avail1 ! i"
        by (auto simp: admissible_def split: option.splits)
      then show ?thesis
        using k by (cases "i = k") (simp_all add: avail1_def load_Cons)
    next
      case False
      with that have "i = k" by simp
      with False k show ?thesis by (simp add: load_Cons load_unused)
    qed
    moreover have "length (Some k # asg) = length (d # ds)"
      by (simp add: asg_def)
    ultimately have "admissible avail (d # ds) (Some k # asg)"
      unfolding admissible_def by (auto split: option.splits)
    with pl show ?thesis by simp
  qed
qed

subsection \<open>The scenario, evaluated\<close>

lemma scenario_slots_before: "slots_before_job_match scenario_sge 4 = [0, 2, 4]"
  by (simp add: slots_before_job_match_def scenario_sge_def scenario_nodes_def dict_values_def)

lemma scenario_pending: "pending_jobs_of scenario_sge 4 10 = scenario_jobs"
  by (simp add: pending_jobs_of_def scenario_sge_def scenario_jobs_def)

lemma scenario_demands: "map slots scenario_jobs = [1, 3, 5]"
  by (simp add: scenario_jobs_def)

lemma scenario_slots: "scenario_properties ''slots'' = Some 4"
  by (simp add: scenario_properties_def)

lemma scenario_job_match: "job_match scenario_sge 4 10 = ([0, 1, 1], 5)"
  by (simp add: job_match_def scenario_slots_before scenario_pending scenario_jobs_def
      scan_slots.simps)

section \<open>The planner: properties\<close>

text \<open>
  C1. When the sorted list of available slots is \<open>[0, 2, 4]\<close> and the pending jobs ask
  for 1, 3 and 5 slots in this order, \<open>_get_required_slots\<close> returns 5, and with four
  slots per instance \<open>get_required_nodes\<close> returns 2. In general, for a non-zero
  number of slots per instance, \<open>get_required_nodes\<close> returns the ceiling of the
  required slots divided by the slots per instance.
\<close>

theorem get_required_nodes_ceiling:
  assumes "instance_properties ''slots'' = Some s"
  shows "(slots_before_job_match sc s = [0, 2, 4] \<and>
          map slots (pending_jobs_of sc s max_size) = [1, 3, 5] \<and> s = 4 \<longrightarrow>
            get_required_slots sc instance_properties max_size = Inr 5 \<and>
            get_required_nodes sc instance_properties max_size = Inr 2) \<and>
         (s \<noteq> 0 \<longrightarrow>
            (\<exists>r. get_required_slots sc instance_properties max_size = Inr r \<and>
                 get_required_nodes sc instance_properties max_size
                   = Inr \<lceil>real_of_int r / real_of_int s\<rceil>))"
proof (intro conjI impI)
  assume a: "slots_before_job_match sc s = [0, 2, 4] \<and>
    map slots (pending_jobs_of sc s max_size) = [1, 3, 5] \<and> s = 4"
  then obtain j1 j2 j3 where jobs: "pending_jobs_of sc s max_size = [j1, j2, j3]"
    and d: "slots j1 = 1" "slots j2 = 3" "slots j3 = 5"
    by (auto simp: map_eq_Cons_conv)
  have s1: "scan_slots 1 [0, 2, 4] 0 = ([0, 1, 4], True)"
    and s2: "scan_slots 3 [0, 1, 4] 0 = ([0, 1, 1], True)"
    and s3: "scan_slots 5 [0, 1, 1] 0 = ([0, 1, 1], False)"
    by (simp_all add: scan_slots.simps)
  have m: "match_jobs [j1, j2, j3] ([0, 2, 4], 0) = ([0, 1, 1], 5)"
    by (simp add: d s1 s2 s3)
  have "job_match sc s max_size = ([0, 1, 1], 5)"
    by (simp only: job_match_def jobs a [THEN conjunct1] m)
  then show slots5: "get_required_slots sc instance_properties max_size = Inr 5"
    using assms by (simp add: get_required_slots_def)
  have "- (- 5 div 4) = (2::int)"
    by simp
  with assms a slots5 show "get_required_nodes sc instance_properties max_size = Inr 2"
    by (simp add: get_required_nodes_def)
next
  assume nz: "s \<noteq> 0"
  let ?r = "snd (job_match sc s max_size)"
  have r: "get_required_slots sc instance_properties max_size = Inr ?r"
    using assms by (simp add: get_required_slots_def)
  have "get_required_nodes sc instance_properties max_size = Inr (- (- ?r div s))"
    using assms nz by (simp add: get_required_nodes_def r)
  also have "- (- ?r div s) = \<lceil>real_of_int ?r / real_of_int s\<rceil>"
    by (rule ceiling_divide_eq_div [symmetric])
  finally show "\<exists>r. get_required_slots sc instance_properties max_size = Inr r \<and>
      get_required_nodes sc instance_properties max_size = Inr \<lceil>real_of_int r / real_of_int s\<rceil>"
    using r by blast
qed

theorem get_required_nodes_ceiling_witness:
  "scenario_properties ''slots'' = Some 4 \<and>
   slots_before_job_match scenario_sge 4 = [0, 2, 4] \<and>
   map slots (pending_jobs_of scenario_sge 4 10) = [1, 3, 5] \<and>
   get_required_slots scenario_sge scenario_properties 10 = Inr 5 \<and>
   get_required_nodes scenario_sge scenario_properties 10 = Inr 2 \<and>
   \<lceil>real_of_int 5 / real_of_int 4\<rceil> = 2"
proof -
  have b: "map slots (pending_jobs_of scenario_sge 4 10) = [1, 3, 5]"
    by (simp add: scenario_pending scenario_demands)
  have c: "\<lceil>real_of_int 5 / real_of_int 4\<rceil> = 2"
    by (simp add: ceiling_divide_eq_div)
  from get_required_nodes_ceiling [where instance_properties = scenario_properties
      and s = 4 and sc = scenario_sge and max_size = 10, OF scenario_slots]
    scenario_slots scenario_slots_before b c
  show ?thesis by simp
qed

text \<open>
  C2. Conservation of the greedy pass: the value returned by \<open>_get_required_slots\<close>
  plus the sum of the decrements applied to the entries of the list of available slots
  is the sum of the slots of all pending jobs processed. Each job either decrements one
  entry by its whole demand or adds its whole demand to the returned total.
\<close>

theorem planner_conservation:
  assumes "instance_properties ''slots'' = Some s"
  shows "(\<exists>r. get_required_slots sc instance_properties max_size = Inr r \<and>
            length (slots_after_job_match sc s max_size) = length (slots_before_job_match sc s) \<and>
            r + (\<Sum>i<length (slots_before_job_match sc s).
                   slots_before_job_match sc s ! i - slots_after_job_match sc s max_size ! i)
              = sum_list (map slots (pending_jobs_of sc s max_size))) \<and>
         (\<forall>job avail required.
            match_jobs [job] (avail, required) = (avail, required + slots job) \<or>
            (\<exists>k<length avail.
               match_jobs [job] (avail, required)
                 = (avail[k := avail ! k - slots job], required)))"
proof (intro conjI allI)
  let ?before = "slots_before_job_match sc s"
  let ?after = "slots_after_job_match sc s max_size"
  let ?r = "snd (job_match sc s max_size)"
  have len: "length ?after = length ?before"
    by (simp add: slots_after_job_match_def job_match_def)
  have "?r + (sum_list ?before - sum_list ?after)
      = sum_list (map slots (pending_jobs_of sc s max_size))"
    using match_jobs_conservation [of "pending_jobs_of sc s max_size" ?before 0]
    by (simp add: slots_after_job_match_def job_match_def)
  then have "?r + (\<Sum>i<length ?before. ?before ! i - ?after ! i)
      = sum_list (map slots (pending_jobs_of sc s max_size))"
    by (simp add: sum_list_diff_nth [OF len])
  with assms len
  show "\<exists>r. get_required_slots sc instance_properties max_size = Inr r \<and>
      length ?after = length ?before \<and>
      r + (\<Sum>i<length ?before. ?before ! i - ?after ! i)
        = sum_list (map slots (pending_jobs_of sc s max_size))"
    by (simp add: get_required_slots_def)
next
  fix job :: SgeJob and avail :: "int list" and required :: int
  obtain avail' found where s: "scan_slots (slots job) avail 0 = (avail', found)"
    by (cases "scan_slots (slots job) avail 0")
  from scan_slots_cases [OF s] s
  show "match_jobs [job] (avail, required) = (avail, required + slots job) \<or>
    (\<exists>k<length avail.
       match_jobs [job] (avail, required) = (avail[k := avail ! k - slots job], required))"
    by auto
qed

theorem planner_conservation_witness:
  "scenario_properties ''slots'' = Some 4 \<and>
   get_required_slots scenario_sge scenario_properties 10 = Inr 5 \<and>
   slots_before_job_match scenario_sge 4 = [0, 2, 4] \<and>
   slots_after_job_match scenario_sge 4 10 = [0, 1, 1] \<and>
   sum_list (map slots (pending_jobs_of scenario_sge 4 10)) = 9 \<and>
   (\<exists>r. get_required_slots scenario_sge scenario_properties 10 = Inr r \<and>
        r + (\<Sum>i<length (slots_before_job_match scenario_sge 4).
               slots_before_job_match scenario_sge 4 ! i
                 - slots_after_job_match scenario_sge 4 10 ! i) = 9)"
proof -
  have a: "get_required_slots scenario_sge scenario_properties 10 = Inr 5"
    by (simp add: get_required_slots_def scenario_slots scenario_job_match)
  have b: "slots_after_job_match scenario_sge 4 10 = [0, 1, 1]"
    by (simp add: slots_after_job_match_def scenario_job_match)
  have c: "sum_list (map slots (pending_jobs_of scenario_sge 4 10)) = 9"
    by (simp add: scenario_pending scenario_demands)
  from planner_conservation [where instance_properties = scenario_properties
      and s = 4 and sc = scenario_sge and max_size = 10, OF scenario_slots]
  have "\<exists>r. get_required_slots scenario_sge scenario_properties 10 = Inr r \<and>
        r + (\<Sum>i<length (slots_before_job_match scenario_sge 4).
               slots_before_job_match scenario_sge 4 ! i
                 - slots_after_job_match scenario_sge 4 10 ! i) = 9"
    unfolding c by blast
  with scenario_slots a scenario_slots_before b c show ?thesis by blast
qed

text \<open>
  C6. \<open>get_busy_nodes\<close> counts the nodes whose state meets the busy states or that have
  slots in use or reserved, leaving out every node whose state contains the orphaned
  state. For node A (no state, two slots in use), node B (orphaned, three slots in use)
  and node C (no state, no slot in use or reserved) the count is 1.
\<close>

theorem get_busy_nodes_count:
  "get_busy_nodes sc =
     int (length (filter
       (\<lambda>node. (set (SGE_BUSY_STATES sc) \<inter> state node \<noteq> {} \<or> slots_used node > 0
                  \<or> slots_reserved node > 0)
               \<and> SGE_ORPHANED_STATE sc \<notin> state node)
       (dict_values (get_compute_nodes_info sc)))) \<and>
   (dict_values (get_compute_nodes_info sc) = [node_a, node_b, node_c] \<and>
    SGE_ORPHANED_STATE sc = ''orphaned'' \<and>
    state node_a = {} \<and> slots_used node_a = 2 \<and>
    state node_b = {''orphaned''} \<and> slots_used node_b = 3 \<and>
    state node_c = {} \<and> slots_used node_c = 0 \<and> slots_reserved node_c = 0 \<longrightarrow>
      get_busy_nodes sc = 1)"
proof -
  have busy: "in_busy_state B node \<longleftrightarrow> set B \<inter> state node \<noteq> {}" for B node
    by (auto simp: in_busy_state_def list_ex_iff)
  have count: "count_busy B orph nodes n =
      n + int (length (filter
        (\<lambda>node. (set B \<inter> state node \<noteq> {} \<or> slots_used node > 0 \<or> slots_reserved node > 0)
                \<and> orph \<notin> state node) nodes))" for B orph nodes n
    by (induction nodes arbitrary: n) (simp_all add: busy)
  show ?thesis
    by (auto simp: get_busy_nodes_def count)
qed

theorem get_busy_nodes_count_witness:
  "get_busy_nodes busy_scenario_sge = 1 \<and>
   length (dict_values (get_compute_nodes_info busy_scenario_sge)) = 3 \<and>
   SGE_ORPHANED_STATE busy_scenario_sge = ''orphaned''"
proof -
  have a: "dict_values (get_compute_nodes_info busy_scenario_sge) =
      [\<lparr>name = ''A'', slots_used = 2, slots_reserved = 0, state = {}\<rparr>,
       \<lparr>name = ''B'', slots_used = 3, slots_reserved = 0, state = {''orphaned''}\<rparr>,
       \<lparr>name = ''C'', slots_used = 0, slots_reserved = 0, state = {}\<rparr>]"
    by (simp add: busy_scenario_sge_def dict_values_def)
  have b: "SGE_ORPHANED_STATE busy_scenario_sge = ''orphaned''"
    by (simp add: busy_scenario_sge_def)
  from get_busy_nodes_count [of busy_scenario_sge
      "\<lparr>name = ''A'', slots_used = 2, slots_reserved = 0, state = {}\<rparr>"
      "\<lparr>name = ''B'', slots_used = 3, slots_reserved = 0, state = {''orphaned''}\<rparr>"
      "\<lparr>name = ''C'', slots_used = 0, slots_reserved = 0, state = {}\<rparr>"] a b
  have "get_busy_nodes busy_scenario_sge = 1" by simp
  with a b show ?thesis by simp
qed

text \<open>
  C7. The total returned by \<open>_get_required_slots\<close> is never below the demand that
  stays unmet: it is the unmet demand of one admissible assignment of the pending jobs
  to the initial available slots (the one the loop makes), so every amount that is
  unmet under all admissible assignments is at most the returned total. In particular
  the total is at least the demand in excess of all available slots taken together.
\<close>

theorem required_slots_at_least_unmet:
  assumes "instance_properties ''slots'' = Some s"
  shows "\<exists>r. get_required_slots sc instance_properties max_size = Inr r \<and>
           (\<exists>asg. admissible (slots_before_job_match sc s)
                    (map slots (pending_jobs_of sc s max_size)) asg \<and>
                  unmet (map slots (pending_jobs_of sc s max_size)) asg = r) \<and>
           (\<forall>lower.
              (\<forall>asg. admissible (slots_before_job_match sc s)
                       (map slots (pending_jobs_of sc s max_size)) asg \<longrightarrow>
                     lower \<le> unmet (map slots (pending_jobs_of sc s max_size)) asg) \<longrightarrow>
              lower \<le> r) \<and>
           sum_list (map slots (pending_jobs_of sc s max_size))
             - (\<Sum>i<length (slots_before_job_match sc s). max 0 (slots_before_job_match sc s ! i))
           \<le> r"
proof -
  let ?before = "slots_before_job_match sc s"
  let ?ds = "map slots (pending_jobs_of sc s max_size)"
  let ?r = "snd (job_match sc s max_size)"
  have r: "get_required_slots sc instance_properties max_size = Inr ?r"
    using assms by (simp add: get_required_slots_def)
  have adm: "admissible ?before ?ds (placements ?ds ?before)"
    by (rule placements_admissible)
  have un: "unmet ?ds (placements ?ds ?before) = ?r"
    using match_jobs_unmet [of "pending_jobs_of sc s max_size" ?before 0]
    by (simp add: job_match_def)
  show ?thesis
  proof (intro exI [of _ ?r] conjI allI impI)
    show "get_required_slots sc instance_properties max_size = Inr ?r"
      by (rule r)
  next
    show "\<exists>asg. admissible ?before ?ds asg \<and> unmet ?ds asg = ?r"
      using adm un by (intro exI [of _ "placements ?ds ?before"] conjI)
  next
    fix lower
    assume "\<forall>asg. admissible ?before ?ds asg \<longrightarrow> lower \<le> unmet ?ds asg"
    from this [rule_format, OF adm]
    have "lower \<le> unmet ?ds (placements ?ds ?before)" .
    then show "lower \<le> ?r"
      by (simp only: un)
  next
    let ?after = "fst (match_jobs (pending_jobs_of sc s max_size) (?before, 0))"
    have "?r + (sum_list ?before - sum_list ?after) = sum_list ?ds"
      using match_jobs_conservation [of "pending_jobs_of sc s max_size" ?before 0]
      by (simp add: job_match_def)
    moreover have "sum_list ?before - sum_list ?after
        = (\<Sum>i<length ?before. ?before ! i - ?after ! i)"
      by (rule sum_list_diff_nth [symmetric]) simp
    moreover have "(\<Sum>i<length ?before. ?before ! i - ?after ! i)
        \<le> (\<Sum>i<length ?before. max 0 (?before ! i))"
      by (rule match_jobs_decrements_bounded)
    ultimately show "sum_list ?ds - (\<Sum>i<length ?before. max 0 (?before ! i)) \<le> ?r"
      by linarith
  qed
qed

lemma scenario_unmet_lower_bound:
  assumes "admissible [0, 2, 4] [1, 3, 5] asg"
  shows "5 \<le> unmet [1, 3, 5] asg"
proof -
  from assms have "length asg = 3"
    by (simp add: admissible_def)
  then obtain a b c where asg: "asg = [a, b, c]"
    by (auto simp: length_Suc_conv numeral_3_eq_3)
  have top: "[0, 2, 4 :: int] ! i \<le> 4" if "i < 3" for i
    using that by (auto simp: less_Suc_eq numeral_3_eq_3)
  have "c = None"
  proof (cases c)
    case None
    then show ?thesis .
  next
    case (Some i)
    with assms asg have i: "i < 3" and l: "load [1, 3, 5] [a, b, c] i \<le> [0, 2, 4] ! i"
      by (simp_all add: admissible_def)
    have "5 \<le> load [1, 3, 5] [a, b, c] i"
      using Some by (simp add: load_def)
    with l top [OF i] show ?thesis by simp
  qed
  then show ?thesis
    by (simp add: asg unmet_def)
qed

theorem required_slots_at_least_unmet_witness:
  "scenario_properties ''slots'' = Some 4 \<and>
   get_required_slots scenario_sge scenario_properties 10 = Inr 5 \<and>
   admissible [0, 2, 4] [1, 3, 5] [Some 1, Some 2, None] \<and>
   unmet [1, 3, 5] [Some 1, Some 2, None] = 5 \<and>
   \<not> (\<exists>asg. admissible [0, 2, 4] [1, 3, 5] asg \<and> unmet [1, 3, 5] asg < 5) \<and>
   (\<exists>r. get_required_slots scenario_sge scenario_properties 10 = Inr r \<and> 5 \<le> r)"
proof -
  have a: "get_required_slots scenario_sge scenario_properties 10 = Inr 5"
    by (simp add: get_required_slots_def scenario_slots scenario_job_match)
  have b: "admissible [0, 2, 4] [1, 3, 5] [Some 1, Some 2, None]"
    by (simp add: admissible_def load_def)
  have c: "unmet [1, 3, 5] [Some 1, Some 2, None] = 5"
    by (simp add: unmet_def)
  have d: "\<not> (\<exists>asg. admissible [0, 2, 4] [1, 3, 5] asg \<and> unmet [1, 3, 5] asg < 5)"
    using scenario_unmet_lower_bound by fastforce
  have ds: "map slots (pending_jobs_of scenario_sge 4 10) = [1, 3, 5]"
    by (simp add: scenario_pending scenario_demands)
  from required_slots_at_least_unmet [where instance_properties = scenario_properties
      and s = 4 and sc = scenario_sge and max_size = 10, OF scenario_slots]
  obtain r where r: "get_required_slots scenario_sge scenario_properties 10 = Inr r"
    and low: "\<forall>lower. (\<forall>asg. admissible [0, 2, 4] [1, 3, 5] asg \<longrightarrow>
        lower \<le> unmet [1, 3, 5] asg) \<longrightarrow> lower \<le> r"
    unfolding scenario_slots_before ds by blast
  from low scenario_unmet_lower_bound have "5 \<le> r"
    by blast
  with r have "\<exists>r. get_required_slots scenario_sge scenario_properties 10 = Inr r \<and> 5 \<le> r"
    by blast
  with scenario_slots a b c d show ?thesis
    by (intro conjI)
qed

text \<open>
  C10. A decrement is applied to an entry only when the demand of the job is at most the
  current value of the entry, so an entry of the list of available slots that is not
  negative when the loop starts is not negative after any number of jobs, nor when the
  loop ends.
\<close>

theorem avail_slots_stay_nonnegative:
  assumes "i < length (slots_before_job_match sc s)"
    and "0 \<le> slots_before_job_match sc s ! i"
  shows "(\<forall>n. 0 \<le> fst (match_jobs (take n (pending_jobs_of sc s max_size))
                      (slots_before_job_match sc s, 0)) ! i) \<and>
         0 \<le> slots_after_job_match sc s max_size ! i \<and>
         (\<forall>d avail avail'.
            scan_slots d avail 0 = (avail', True) \<longrightarrow>
              (\<exists>k<length avail. d \<le> avail ! k \<and> avail' = avail[k := avail ! k - d] \<and>
                 0 \<le> avail' ! k))"
proof (intro conjI allI impI)
  fix n
  show "0 \<le> fst (match_jobs (take n (pending_jobs_of sc s max_size))
      (slots_before_job_match sc s, 0)) ! i"
    using assms by (rule match_jobs_nonneg)
next
  show "0 \<le> slots_after_job_match sc s max_size ! i"
    unfolding slots_after_job_match_def job_match_def
    using assms by (rule match_jobs_nonneg)
next
  fix d avail avail'
  assume "scan_slots d avail 0 = (avail', True)"
  from scan_slots_cases [OF this]
  show "\<exists>k<length avail. d \<le> avail ! k \<and> avail' = avail[k := avail ! k - d] \<and> 0 \<le> avail' ! k"
    by simp
qed

theorem avail_slots_stay_nonnegative_witness:
  "(1::nat) < length (slots_before_job_match scenario_sge 4) \<and>
   0 \<le> slots_before_job_match scenario_sge 4 ! 1 \<and>
   slots_after_job_match scenario_sge 4 10 ! 1 = 1 \<and>
   0 \<le> slots_after_job_match scenario_sge 4 10 ! 1 \<and>
   scan_slots 3 [0, 1, 4] 0 = ([0, 1, 1], True) \<and>
   (\<exists>k<length [0, 1, 4 :: int]. (3::int) \<le> [0, 1, 4] ! k \<and>
      [0, 1, 1] = [0, 1, 4 :: int][k := [0, 1, 4] ! k - 3] \<and> 0 \<le> [0, 1, 1 :: int] ! k)"
proof -
  have a: "(1::nat) < length (slots_before_job_match scenario_sge 4)"
    and b: "0 \<le> slots_before_job_match scenario_sge 4 ! 1"
    by (simp_all add: scenario_slots_before)
  have c: "slots_after_job_match scenario_sge 4 10 ! 1 = 1"
    by (simp add: slots_after_job_match_def scenario_job_match)
  have d: "scan_slots 3 [0, 1, 4] 0 = ([0, 1, 1], True)"
    by (simp add: scan_slots.simps)
  note th = avail_slots_stay_nonnegative [OF a b, of 10]
  have e: "0 \<le> slots_after_job_match scenario_sge 4 10 ! 1"
    by (rule th [THEN conjunct2, THEN conjunct1])
  have f: "\<exists>k<length [0, 1, 4 :: int]. (3::int) \<le> [0, 1, 4] ! k \<and>
      [0, 1, 1] = [0, 1, 4 :: int][k := [0, 1, 4] ! k - 3] \<and> 0 \<le> [0, 1, 1 :: int] ! k"
    by (rule th [THEN conjunct2, THEN conjunct2, rule_format, OF d])
  from a b c e d f show ?thesis
    by (intro conjI)
qed

section \<open>The mapper: lemmas\<close>

subsection \<open>Stripping\<close>

lemma strip_Nil [simp]: "strip [] = []"
  by (simp add: strip_def)

lemma text_input_strip:
  "text_input result =
     (case elem_text result of None \<Rightarrow> PyNone | Some s \<Rightarrow> PyStr (strip s))"
  by (simp add: text_input_def split: option.split)

lemma rev_dropWhile_takeWhile:
  "rev (dropWhile P (rev t)) @ rev (takeWhile P (rev t)) = t"
proof -
  have "rev (dropWhile P (rev t)) @ rev (takeWhile P (rev t))
      = rev (takeWhile P (rev t) @ dropWhile P (rev t))"
    by (simp only: rev_append)
  also have "\<dots> = rev (rev t)"
    by (simp only: takeWhile_dropWhile_id)
  also have "\<dots> = t"
    by simp
  finally show ?thesis .
qed

lemma strip_decomp:
  "\<exists>l r. s = l @ strip s @ r \<and> list_all isspace l \<and> list_all isspace r"
proof -
  define t where "t = dropWhile isspace s"
  define w where "w = rev (takeWhile isspace (rev t))"
  have s: "s = takeWhile isspace s @ t"
    by (simp add: t_def)
  have t: "t = strip s @ w"
    unfolding strip_def w_def t_def by (rule rev_dropWhile_takeWhile [symmetric])
  have l: "list_all isspace (takeWhile isspace s)"
    by (auto simp: list_all_iff dest: set_takeWhileD)
  have r: "list_all isspace w"
    by (auto simp: w_def list_all_iff dest: set_takeWhileD)
  from s t have "s = takeWhile isspace s @ strip s @ w"
    by simp
  with l r show ?thesis by blast
qed

lemma strip_ends:
  assumes "strip s \<noteq> []"
  shows "\<not> isspace (hd (strip s))" "\<not> isspace (last (strip s))"
proof -
  define t where "t = dropWhile isspace s"
  define u where "u = dropWhile isspace (rev t)"
  define w where "w = rev (takeWhile isspace (rev t))"
  have st: "strip s = rev u"
    by (simp add: strip_def t_def u_def)
  with assms have u: "u \<noteq> []" by simp
  then have "\<not> isspace (hd u)"
    unfolding u_def by (rule hd_dropWhile)
  with u show "\<not> isspace (last (strip s))"
    by (simp add: st last_rev)
  have t: "t = rev u @ w"
    unfolding u_def w_def by (rule rev_dropWhile_takeWhile [symmetric])
  from u have "hd (rev u @ w) = hd (rev u)"
    by (simp add: hd_append)
  with t have hd: "hd t = hd (rev u)"
    by simp
  from t u have "t \<noteq> []"
    by simp
  then have "\<not> isspace (hd t)"
    unfolding t_def by (rule hd_dropWhile)
  with hd show "\<not> isspace (hd (strip s))"
    by (simp add: st)
qed

subsection \<open>The values of one key\<close>

lemma collect_values_acc:
  "collect_values f ty results vals =
     (case collect_values f ty results [] of
        Inl e \<Rightarrow> Inl e
      | Inr vs \<Rightarrow> Inr (vals @ vs))"
proof (induction results arbitrary: vals)
  case Nil
  show ?case by simp
next
  case (Cons r rs)
  show ?case
  proof (cases "transformed f (extract_input ty r)")
    case (Inl e)
    then show ?thesis by simp
  next
    case (Inr v)
    then show ?thesis
      using Cons.IH [of "vals @ [v]"] Cons.IH [of "[v]"]
      by (simp split: sum.splits)
  qed
qed

lemma collect_values_Cons:
  "collect_values f ty (r # rs) [] =
     (case transformed f (extract_input ty r) of
        Inl e \<Rightarrow> Inl e
      | Inr v \<Rightarrow>
          (case collect_values f ty rs [] of Inl e \<Rightarrow> Inl e | Inr ws \<Rightarrow> Inr (v # ws)))"
proof (cases "transformed f (extract_input ty r)")
  case (Inl e)
  then show ?thesis by simp
next
  case (Inr v)
  have "collect_values f ty rs [v] =
      (case collect_values f ty rs [] of Inl e \<Rightarrow> Inl e | Inr ws \<Rightarrow> Inr (v # ws))"
    by (subst collect_values_acc) (simp split: sum.split)
  with Inr show ?thesis by simp
qed

lemma collect_values_Inr:
  "collect_values f ty results [] = Inr vs \<longleftrightarrow>
     list_all2 (\<lambda>r v. transformed f (extract_input ty r) = Inr v) results vs"
proof (induction results arbitrary: vs)
  case Nil
  show ?case by auto
next
  case (Cons r rs)
  let ?Q = "\<lambda>r v. transformed f (extract_input ty r) = Inr v"
  show ?case
  proof
    assume "collect_values f ty (r # rs) [] = Inr vs"
    then have a: "(case transformed f (extract_input ty r) of
          Inl e \<Rightarrow> Inl e
        | Inr v \<Rightarrow>
            (case collect_values f ty rs [] of Inl e \<Rightarrow> Inl e | Inr ws \<Rightarrow> Inr (v # ws)))
        = Inr vs"
      by (simp only: collect_values_Cons)
    then obtain v where v: "transformed f (extract_input ty r) = Inr v"
      by (cases "transformed f (extract_input ty r)") simp_all
    with a obtain ws where ws: "collect_values f ty rs [] = Inr ws" and vs: "vs = v # ws"
      by (cases "collect_values f ty rs []") auto
    from ws have "list_all2 ?Q rs ws"
      by (simp only: Cons.IH)
    with v vs show "list_all2 ?Q (r # rs) vs"
      by simp
  next
    assume "list_all2 ?Q (r # rs) vs"
    then obtain v ws where vs: "vs = v # ws" and v: "?Q r v" and ws: "list_all2 ?Q rs ws"
      by (auto simp: list_all2_Cons1)
    from ws have "collect_values f ty rs [] = Inr ws"
      by (simp only: Cons.IH)
    with v vs show "collect_values f ty (r # rs) [] = Inr vs"
      unfolding collect_values_Cons by simp
  qed
qed

lemma values_of_results:
  assumes "values_of ET xroot key m = Inr vals"
  shows "\<exists>results. findall ET xroot key = Inr results \<and>
           list_all2 (\<lambda>r v. transformed (transformation m) (extract_input (elem_type_of m) r) = Inr v)
             results vals"
  using assms by (auto simp: values_of_def collect_values_Inr split: sum.splits)

lemma values_of_nth:
  assumes "values_of ET xroot key m = Inr vals"
    and "findall ET xroot key = Inr results"
  shows "length vals = length results"
    and "i < length results \<Longrightarrow>
      transformed (transformation m) (extract_input (elem_type_of m) (results ! i)) = Inr (vals ! i)"
proof -
  from values_of_results [OF assms(1)] assms(2)
  have l: "list_all2
      (\<lambda>r v. transformed (transformation m) (extract_input (elem_type_of m) r) = Inr v)
      results vals"
    by simp
  then show "length vals = length results"
    by (simp add: list_all2_lengthD)
  assume "i < length results"
  with l show
    "transformed (transformation m) (extract_input (elem_type_of m) (results ! i)) = Inr (vals ! i)"
    by (rule list_all2_nthD)
qed

subsection \<open>The object after the loop over the mappings\<close>

text \<open>What the assignment of lines 85 and 86 leaves in the attribute \<open>f\<close>.\<close>

lemma assign_values_field:
  assumes "assign_values m vals ob = Inr ob'" and "field m = Some f"
  shows "ob' = (case vals of [] \<Rightarrow> ob | [v] \<Rightarrow> ob(f \<mapsto> v) | _ \<Rightarrow> ob(f \<mapsto> PyList vals))"
proof (cases vals)
  case Nil
  with assms show ?thesis by (simp add: assign_values_def)
next
  case (Cons v vs)
  with assms show ?thesis
    by (cases vs) (auto simp: assign_values_def)
qed

lemma assign_values_other:
  assumes "assign_values m vals ob = Inr ob'" and "field m \<noteq> Some f"
  shows "ob' f = ob f"
  using assms by (auto simp: assign_values_def split: if_splits option.splits)

lemma map_tags_step:
  assumes "map_tags ET xroot ((key', m') # entries) ob = Inr ob'"
  shows "\<exists>vals' ob1. values_of ET xroot key' m' = Inr vals' \<and>
           assign_values m' vals' ob = Inr ob1 \<and> map_tags ET xroot entries ob1 = Inr ob'"
proof (cases "values_of ET xroot key' m'")
  case (Inl e)
  with assms show ?thesis by (simp add: map_tag_def)
next
  case (Inr vals')
  show ?thesis
  proof (cases "assign_values m' vals' ob")
    case (Inl e)
    with Inr assms show ?thesis by (simp add: map_tag_def)
  next
    case inr: (Inr ob1)
    with Inr assms show ?thesis by (simp add: map_tag_def)
  qed
qed

lemma assigned_field:
  assumes "assign_values m vals ob = Inr ob1" and "field m = Some f"
  shows "ob1 f = (case vals of [] \<Rightarrow> ob f | [v] \<Rightarrow> Some v | _ \<Rightarrow> Some (PyList vals))"
proof (cases vals)
  case Nil
  with assms show ?thesis by (simp add: assign_values_def)
next
  case (Cons v vs)
  with assms show ?thesis
    by (cases vs) (auto simp: assign_values_def)
qed

lemma assigned_twice:
  "(case vals of
      [] \<Rightarrow> (case vals of [] \<Rightarrow> x | [v] \<Rightarrow> Some v | _ \<Rightarrow> Some (PyList vals))
    | [v] \<Rightarrow> Some v
    | _ \<Rightarrow> Some (PyList vals))
   = (case vals of [] \<Rightarrow> x | [v] \<Rightarrow> Some v | _ \<Rightarrow> Some (PyList vals))"
proof (cases vals)
  case Nil
  then show ?thesis by simp
next
  case (Cons v vs)
  then show ?thesis by (cases vs) simp_all
qed

lemma map_tags_field:
  assumes "map_tags ET xroot entries ob = Inr ob'"
    and "values_of ET xroot key m = Inr vals"
    and "field m = Some f"
    and "\<forall>key' m'. (key', m') \<in> set entries \<longrightarrow> field m' = Some f \<longrightarrow> key' = key \<and> m' = m"
  shows "ob' f =
     (if (key, m) \<in> set entries
      then (case vals of [] \<Rightarrow> ob f | [v] \<Rightarrow> Some v | _ \<Rightarrow> Some (PyList vals))
      else ob f)"
  using assms(1,4)
proof (induction entries arbitrary: ob)
  case Nil
  then show ?case by simp
next
  case (Cons entry entries)
  obtain key' m' where entry: "entry = (key', m')"
    by (cases entry)
  from Cons.prems(1) [unfolded entry] map_tags_step
  obtain vals' ob1 where vals': "values_of ET xroot key' m' = Inr vals'"
    and step: "assign_values m' vals' ob = Inr ob1"
    and rest: "map_tags ET xroot entries ob1 = Inr ob'"
    by blast
  have uniq: "\<forall>key' m'. (key', m') \<in> set entries \<longrightarrow> field m' = Some f \<longrightarrow> key' = key \<and> m' = m"
    using Cons.prems(2) by simp
  note IH = Cons.IH [OF rest uniq]
  show ?case
  proof (cases "field m' = Some f")
    case True
    have "(key', m') \<in> set (entry # entries)"
      by (simp add: entry)
    with Cons.prems(2) True have same: "key' = key" "m' = m"
      by blast+
    from vals' assms(2) have "vals' = vals"
      by (simp add: same)
    with step same have "assign_values m vals ob = Inr ob1"
      by simp
    from assigned_field [OF this assms(3)]
    have ob1: "ob1 f = (case vals of [] \<Rightarrow> ob f | [v] \<Rightarrow> Some v | _ \<Rightarrow> Some (PyList vals))" .
    have mem: "(key, m) \<in> set (entry # entries)"
      by (simp add: entry same)
    show ?thesis
    proof (cases "(key, m) \<in> set entries")
      case True
      with IH have "ob' f = (case vals of [] \<Rightarrow> ob1 f | [v] \<Rightarrow> Some v | _ \<Rightarrow> Some (PyList vals))"
        by simp
      also have "\<dots> = (case vals of [] \<Rightarrow> ob f | [v] \<Rightarrow> Some v | _ \<Rightarrow> Some (PyList vals))"
        unfolding ob1 by (rule assigned_twice)
      finally show ?thesis using mem by (simp only: if_True)
    next
      case False
      with IH have "ob' f = ob1 f"
        by simp
      with ob1 mem show ?thesis by (simp only: if_True)
    qed
  next
    case False
    with step have eq: "ob1 f = ob f"
      by (rule assign_values_other)
    from False assms(3) have "(key, m) \<noteq> (key', m')"
      by auto
    then have mem: "(key, m) \<in> set (entry # entries) \<longleftrightarrow> (key, m) \<in> set entries"
      by (auto simp: entry)
    from IH [unfolded eq] show ?thesis
      unfolding mem .
  qed
qed

lemma map_tags_values:
  assumes "map_tags ET xroot entries ob = Inr ob'" and "(key, m) \<in> set entries"
  shows "\<exists>vals. values_of ET xroot key m = Inr vals"
  using assms
proof (induction entries arbitrary: ob)
  case Nil
  then show ?case by simp
next
  case (Cons entry entries)
  obtain key' m' where entry: "entry = (key', m')"
    by (cases entry)
  from Cons.prems(1) [unfolded entry] map_tags_step
  obtain vals' ob1 where vals': "values_of ET xroot key' m' = Inr vals'"
    and rest: "map_tags ET xroot entries ob1 = Inr ob'"
    by blast
  show ?case
  proof (cases "(key, m) = (key', m')")
    case True
    with vals' show ?thesis by auto
  next
    case False
    with Cons.prems(2) entry have "(key, m) \<in> set entries"
      by auto
    with rest show ?thesis by (rule Cons.IH)
  qed
qed

lemma map_tag_result:
  assumes "map_tag ET xroot (key, m) ob0 = Inr ob1"
    and "values_of ET xroot key m = Inr vals" and "field m = Some f"
  shows "ob1 = (case vals of [] \<Rightarrow> ob0 | [v] \<Rightarrow> ob0(f \<mapsto> v) | _ \<Rightarrow> ob0(f \<mapsto> PyList vals))"
proof -
  from assms(1,2) have "assign_values m vals ob0 = Inr ob1"
    by (simp add: map_tag_def)
  then show ?thesis using assms(3) by (rule assign_values_field)
qed

subsection \<open>Document order\<close>

lemma subseq_concat_iter: "subseq cs (concat (map iter cs))"
proof (induction cs)
  case Nil
  show ?case by simp
next
  case (Cons c cs)
  obtain t a x ds where c: "c = Element t a x ds"
    by (cases c)
  have "subseq (c # cs) (c # (concat (map iter ds) @ concat (map iter cs)))"
    using Cons.IH by (simp add: subseq_drop_many)
  then show ?case by (simp add: c)
qed

lemma subseq_children_iter: "subseq (children xroot) (iter xroot)"
proof (cases xroot)
  case (Element t a x cs)
  have "subseq cs (Element t a x cs # concat (map iter cs))"
    using subseq_concat_iter [of cs] by (rule list_emb_Cons)
  with Element show ?thesis by simp
qed

subsection \<open>The scenario, evaluated\<close>

lemma text_entry_simps [simp]:
  "field (text_entry f) = Some f" "transformation (text_entry f) = None"
  "xml_elem_type (text_entry f) = None"
  by (simp_all add: text_entry_def)

lemma scenario_fromstring: "fromstring scenario_etree ''<job_list/>'' = Inr scenario_job_list"
  by (simp add: scenario_etree_def)

lemma plain_tag_scenario:
  "plain_tag ''JB_job_number''" "plain_tag ''slots''" "plain_tag ''queue_name''"
  "plain_tag ''hard_request''" "plain_tag ''tasks''"
  by (simp_all add: plain_tag_def tag_char_def)

lemma scenario_findall:
  "findall scenario_etree scenario_job_list ''JB_job_number''
     = Inr [Element ''JB_job_number'' [] (Some ''12422'') []]"
  "findall scenario_etree scenario_job_list ''slots'' = Inr [Element ''slots'' [] (Some ''1'') []]"
  "findall scenario_etree scenario_job_list ''queue_name'' = Inr [Element ''queue_name'' [] None []]"
  "findall scenario_etree scenario_job_list ''hard_request'' = Inr [vcs_request, vcs_build_request]"
  "findall scenario_etree scenario_job_list ''tasks'' = Inr []"
  by (simp_all add: findall_def plain_tag_scenario scenario_job_list_def vcs_request_def
      vcs_build_request_def)

lemma strip_scenario: "strip ''12422'' = ''12422''" "strip ''1'' = ''1''"
  "strip ''TRUE'' = ''TRUE''" "strip '' TRUE '' = ''TRUE''"
  by (simp_all add: strip_def isspace_def)

lemma scenario_values:
  "values_of scenario_etree scenario_job_list ''JB_job_number'' (text_entry ''number'')
     = Inr [PyStr ''12422'']"
  "values_of scenario_etree scenario_job_list ''slots'' (text_entry ''slots'') = Inr [PyStr ''1'']"
  "values_of scenario_etree scenario_job_list ''queue_name'' (text_entry ''hostname'') = Inr [PyNone]"
  "values_of scenario_etree scenario_job_list ''hard_request'' (text_entry ''hard_request'')
     = Inr [PyDict [(''vcs'', PyStr ''TRUE'')], PyDict [(''vcs_build'', PyStr ''TRUE'')]]"
  "values_of scenario_etree scenario_job_list ''tasks'' (text_entry ''tasks'') = Inr []"
  by (simp_all add: values_of_def scenario_findall elem_type_of_def
      transformed_def extract_input_def text_input_def strip_scenario vcs_request_def
      vcs_build_request_def)

lemma subtree_entry_simps [simp]:
  "field (subtree_entry f) = Some f" "transformation (subtree_entry f) = None"
  "xml_elem_type (subtree_entry f) = Some ''xml''"
  by (simp_all add: subtree_entry_def)

lemma scenario_subtree_values:
  "values_of scenario_etree scenario_job_list ''hard_request'' (subtree_entry ''hard_request'')
     = Inr [PyXml vcs_request, PyXml vcs_build_request]"
  by (simp add: values_of_def scenario_findall elem_type_of_def transformed_def extract_input_def)

lemma scenario_subtree_object:
  "from_xml_to_obj scenario_etree ''<job_list/>'' scenario_subtree_type =
     Inr (scenario_defaults
       (''hard_request'' \<mapsto> PyList [PyXml vcs_request, PyXml vcs_build_request]))"
  by (simp add: from_xml_to_obj_def scenario_fromstring scenario_subtree_type_def map_tag_def
      scenario_subtree_values assign_values_def)

lemma scenario_attrib:
  "map_of (attrib vcs_build_request) ''name'' = Some ''vcs_build''"
  "elem_text vcs_build_request = Some '' TRUE ''"
  "map_of (attrib vcs_request) ''name'' = Some ''vcs''"
  by (simp_all add: vcs_build_request_def vcs_request_def)

lemma scenario_object:
  "from_xml_to_obj scenario_etree ''<job_list/>'' scenario_job_type =
     Inr (scenario_defaults
       (''number'' \<mapsto> PyStr ''12422'', ''slots'' \<mapsto> PyStr ''1'', ''hostname'' \<mapsto> PyNone,
        ''hard_request'' \<mapsto>
           PyList [PyDict [(''vcs'', PyStr ''TRUE'')], PyDict [(''vcs_build'', PyStr ''TRUE'')]]))"
  by (simp add: from_xml_to_obj_def scenario_fromstring scenario_job_type_def map_tag_def
      scenario_values assign_values_def)

lemma untransformed_values:
  assumes "list_all2 (\<lambda>r v. transformed None (extract_input ty r) = Inr v) results vals"
  shows "vals = map (extract_input ty) results"
  using assms by (induction rule: list_all2_induct) (simp_all add: transformed_def)

lemma subseq_matching_children:
  "subseq (filter (\<lambda>e. tag e = key) (children xroot)) (iter xroot)"
proof -
  have "subseq (filter (\<lambda>e. tag e = key) (children xroot)) (children xroot)"
    by (rule subseq_filter_left)
  then show ?thesis
    using subseq_children_iter by (rule subseq_order.trans)
qed

lemma shared_field_fromstring:
  "fromstring shared_field_etree ''<r><a>1</a><b>x</b><b>y</b></r>'' = Inr shared_field_root"
  by (simp add: shared_field_etree_def)

lemma shared_field_findall:
  "findall shared_field_etree shared_field_root ''a'' = Inr [Element ''a'' [] (Some ''1'') []]"
  "findall shared_field_etree shared_field_root ''b''
     = Inr [Element ''b'' [] (Some ''x'') [], Element ''b'' [] (Some ''y'') []]"
  "findall shared_field_etree shared_field_root ''c'' = Inr []"
  by (simp_all add: findall_def plain_tag_def tag_char_def shared_field_root_def)

lemma shared_field_values:
  "values_of shared_field_etree shared_field_root ''a'' (text_entry ''v'') = Inr [PyStr ''1'']"
  "values_of shared_field_etree shared_field_root ''b'' (text_entry ''v'')
     = Inr [PyStr ''x'', PyStr ''y'']"
  "values_of shared_field_etree shared_field_root ''c'' (text_entry ''v'') = Inr []"
  by (simp_all add: values_of_def shared_field_findall elem_type_of_def transformed_def
      extract_input_def text_input_def strip_def isspace_def)

lemma shared_field_object:
  "from_xml_to_obj shared_field_etree ''<r><a>1</a><b>x</b><b>y</b></r>'' shared_field_type =
     Inr ([''v'' \<mapsto> PyList [PyStr ''x'', PyStr ''y'']])"
  by (simp add: from_xml_to_obj_def shared_field_fromstring shared_field_type_def map_tag_def
      shared_field_values assign_values_def)

section \<open>The mapper: properties\<close>

text \<open>
  C3 (as amended). For a matched element with a \<open>name\<close> attribute, under a mapping
  whose element type is not \<open>"xml"\<close>, the value taken from the element, before any
  transformation, is the single-entry dictionary from the value of the attribute to the
  text of the element (stripped, and \<open>None\<close> for an element without text). Under the
  element type \<open>"xml"\<close> the value is the element itself, whatever its attributes.
\<close>

theorem name_attribute_rule:
  assumes "values_of ET xroot key m = Inr vals"
    and "findall ET xroot key = Inr results"
    and "i < length results"
    and "map_of (attrib (results ! i)) ''name'' = Some n"
  shows "(elem_type_of m \<noteq> ''xml'' \<longrightarrow>
            extract_input (elem_type_of m) (results ! i)
              = PyDict [(n, case elem_text (results ! i) of
                              None \<Rightarrow> PyNone | Some s \<Rightarrow> PyStr (strip s))] \<and>
            transformed (transformation m)
              (PyDict [(n, case elem_text (results ! i) of
                             None \<Rightarrow> PyNone | Some s \<Rightarrow> PyStr (strip s))])
              = Inr (vals ! i)) \<and>
         (elem_type_of m = ''xml'' \<longrightarrow>
            extract_input (elem_type_of m) (results ! i) = PyXml (results ! i) \<and>
            transformed (transformation m) (PyXml (results ! i)) = Inr (vals ! i))"
proof -
  note nth = values_of_nth(2) [OF assms(1,2,3)]
  show ?thesis
  proof (intro conjI impI)
    assume ty: "elem_type_of m \<noteq> ''xml''"
    with assms(4)
    show e: "extract_input (elem_type_of m) (results ! i)
        = PyDict [(n, case elem_text (results ! i) of
                        None \<Rightarrow> PyNone | Some s \<Rightarrow> PyStr (strip s))]"
      by (simp add: extract_input_def text_input_strip)
    from nth show "transformed (transformation m)
        (PyDict [(n, case elem_text (results ! i) of
                       None \<Rightarrow> PyNone | Some s \<Rightarrow> PyStr (strip s))]) = Inr (vals ! i)"
      by (simp only: e)
  next
    assume ty: "elem_type_of m = ''xml''"
    then show e: "extract_input (elem_type_of m) (results ! i) = PyXml (results ! i)"
      by (simp add: extract_input_def)
    from nth show "transformed (transformation m) (PyXml (results ! i)) = Inr (vals ! i)"
      by (simp only: e)
  qed
qed

theorem name_attribute_rule_witness:
  "values_of scenario_etree scenario_job_list ''hard_request'' (text_entry ''hard_request'')
     = Inr [PyDict [(''vcs'', PyStr ''TRUE'')], PyDict [(''vcs_build'', PyStr ''TRUE'')]] \<and>
   findall scenario_etree scenario_job_list ''hard_request''
     = Inr [vcs_request, vcs_build_request] \<and>
   map_of (attrib vcs_build_request) ''name'' = Some ''vcs_build'' \<and>
   elem_type_of (text_entry ''hard_request'') = ''text'' \<and>
   extract_input ''text'' vcs_build_request = PyDict [(''vcs_build'', PyStr ''TRUE'')]"
proof -
  have i: "(1::nat) < length [vcs_request, vcs_build_request]"
    by simp
  have n: "map_of (attrib ([vcs_request, vcs_build_request] ! 1)) ''name'' = Some ''vcs_build''"
    by (simp add: scenario_attrib)
  have ty: "elem_type_of (text_entry ''hard_request'') = ''text''"
    by (simp add: elem_type_of_def)
  from name_attribute_rule [OF scenario_values(4) scenario_findall(4) i n]
  have "extract_input ''text'' vcs_build_request = PyDict [(''vcs_build'', PyStr ''TRUE'')]"
    by (simp add: ty scenario_attrib strip_scenario)
  with scenario_values(4) scenario_findall(4) scenario_attrib(1) ty show ?thesis
    by (intro conjI)
qed

theorem name_attribute_rule_counterexample:
  "map_of (attrib vcs_build_request) ''name'' = Some ''vcs_build'' \<and>
   findall scenario_etree scenario_job_list ''hard_request''
     = Inr [vcs_request, vcs_build_request] \<and>
   values_of scenario_etree scenario_job_list ''hard_request'' (subtree_entry ''hard_request'')
     = Inr [PyXml vcs_request, PyXml vcs_build_request] \<and>
   getattr (from_xml_to_obj scenario_etree ''<job_list/>'' scenario_subtree_type) ''hard_request''
     = Some (PyList [PyXml vcs_request, PyXml vcs_build_request]) \<and>
   PyXml vcs_build_request \<noteq> PyDict [(''vcs_build'', PyStr ''TRUE'')]"
proof -
  have "getattr (from_xml_to_obj scenario_etree ''<job_list/>'' scenario_subtree_type)
      ''hard_request'' = Some (PyList [PyXml vcs_request, PyXml vcs_build_request])"
    by (simp add: getattr_def scenario_subtree_object)
  moreover have "PyXml vcs_build_request \<noteq> PyDict [(''vcs_build'', PyStr ''TRUE'')]"
    by simp
  ultimately show ?thesis
    using scenario_attrib(1) scenario_findall(4) scenario_subtree_values
    by (intro conjI)
qed

text \<open>
  C4 (as amended). Aggregation, for a source key of the field mapping whose target field
  is the target of no other entry: when \<open>from_xml_to_obj\<close> returns, the key has yielded
  one value per matched element, in the order of the matches (for a key that is a plain
  tag name these are the children of the root with the tag, in document order); the
  target field of the returned object is that value when there is exactly one, the
  list of all values in this order when there are two or more, and the default of the
  constructor when there is none.
\<close>

theorem aggregation_rule:
  assumes "from_xml_to_obj ET xml T = Inr ob"
    and "(key, m) \<in> set (MAPPINGS T)"
    and "field m = Some f"
    and "\<forall>key' m'. (key', m') \<in> set (MAPPINGS T) \<longrightarrow> field m' = Some f \<longrightarrow>
           key' = key \<and> m' = m"
  shows "\<exists>xroot results vals.
           fromstring ET xml = Inr xroot \<and>
           findall ET xroot key = Inr results \<and>
           (plain_tag key \<longrightarrow>
              results = filter (\<lambda>e. tag e = key) (children xroot) \<and>
              subseq results (iter xroot)) \<and>
           length vals = length results \<and>
           (\<forall>i<length results.
              transformed (transformation m) (extract_input (elem_type_of m) (results ! i))
                = Inr (vals ! i)) \<and>
           (transformation m = None \<longrightarrow> vals = map (extract_input (elem_type_of m)) results) \<and>
           ob f = (case vals of
                     [] \<Rightarrow> init T f
                   | [v] \<Rightarrow> Some v
                   | _ \<Rightarrow> Some (PyList vals))"
proof -
  from assms(1) obtain xroot where xroot: "fromstring ET xml = Inr xroot"
    and tags: "map_tags ET xroot (MAPPINGS T) (init T) = Inr ob"
    by (cases "fromstring ET xml") (simp_all add: from_xml_to_obj_def)
  from map_tags_values [OF tags assms(2)]
  obtain vals where vals: "values_of ET xroot key m = Inr vals"
    by blast
  from values_of_results [OF vals]
  obtain results where results: "findall ET xroot key = Inr results"
    and order: "list_all2
      (\<lambda>r v. transformed (transformation m) (extract_input (elem_type_of m) r) = Inr v)
      results vals"
    by blast
  have plain: "results = filter (\<lambda>e. tag e = key) (children xroot) \<and> subseq results (iter xroot)"
    if "plain_tag key"
  proof -
    from that results have eq: "results = filter (\<lambda>e. tag e = key) (children xroot)"
      by (simp add: findall_def)
    have "subseq results (iter xroot)"
      unfolding eq by (rule subseq_matching_children)
    with eq show ?thesis
      by (rule conjI)
  qed
  have len: "length vals = length results"
    using order by (simp add: list_all2_lengthD)
  have nth: "\<forall>i<length results.
      transformed (transformation m) (extract_input (elem_type_of m) (results ! i))
        = Inr (vals ! i)"
  proof (intro allI impI)
    fix i assume "i < length results"
    with order
    show "transformed (transformation m) (extract_input (elem_type_of m) (results ! i))
        = Inr (vals ! i)"
      by (rule list_all2_nthD)
  qed
  have plainvals: "vals = map (extract_input (elem_type_of m)) results"
    if "transformation m = None"
    using order unfolding that by (rule untransformed_values)
  have final: "ob f = (case vals of [] \<Rightarrow> init T f | [v] \<Rightarrow> Some v | _ \<Rightarrow> Some (PyList vals))"
    using map_tags_field [OF tags vals assms(3,4)] assms(2) by simp
  show ?thesis
  proof (intro exI conjI impI)
    show "fromstring ET xml = Inr xroot" by (rule xroot)
    show "findall ET xroot key = Inr results" by (rule results)
    show "length vals = length results" by (rule len)
    show "\<forall>i<length results.
        transformed (transformation m) (extract_input (elem_type_of m) (results ! i))
          = Inr (vals ! i)" by (rule nth)
    show "ob f = (case vals of [] \<Rightarrow> init T f | [v] \<Rightarrow> Some v | _ \<Rightarrow> Some (PyList vals))"
      by (rule final)
  next
    assume "plain_tag key"
    note p = plain [OF this]
    show "results = filter (\<lambda>e. tag e = key) (children xroot)"
      by (rule p [THEN conjunct1])
    show "subseq results (iter xroot)"
      by (rule p [THEN conjunct2])
  next
    assume "transformation m = None"
    then show "vals = map (extract_input (elem_type_of m)) results"
      by (rule plainvals)
  qed
qed

theorem aggregation_rule_witness:
  "from_xml_to_obj scenario_etree ''<job_list/>'' scenario_job_type =
     Inr (scenario_defaults
       (''number'' \<mapsto> PyStr ''12422'', ''slots'' \<mapsto> PyStr ''1'', ''hostname'' \<mapsto> PyNone,
        ''hard_request'' \<mapsto>
           PyList [PyDict [(''vcs'', PyStr ''TRUE'')], PyDict [(''vcs_build'', PyStr ''TRUE'')]])) \<and>
   findall scenario_etree scenario_job_list ''tasks'' = Inr [] \<and>
   init scenario_job_type ''tasks'' = Some (PyStr ''all'') \<and>
   getattr (from_xml_to_obj scenario_etree ''<job_list/>'' scenario_job_type) ''tasks''
     = Some (PyStr ''all'') \<and>
   Some (PyStr ''all'') \<noteq> Some PyNone \<and>
   findall scenario_etree scenario_job_list ''JB_job_number''
     = Inr [Element ''JB_job_number'' [] (Some ''12422'') []] \<and>
   getattr (from_xml_to_obj scenario_etree ''<job_list/>'' scenario_job_type) ''number''
     = Some (PyStr ''12422'') \<and>
   findall scenario_etree scenario_job_list ''hard_request''
     = Inr [vcs_request, vcs_build_request] \<and>
   subseq [vcs_request, vcs_build_request] (iter scenario_job_list) \<and>
   getattr (from_xml_to_obj scenario_etree ''<job_list/>'' scenario_job_type) ''hard_request''
     = Some (PyList [PyDict [(''vcs'', PyStr ''TRUE'')], PyDict [(''vcs_build'', PyStr ''TRUE'')]])"
proof -
  let ?ob = "scenario_defaults
       (''number'' \<mapsto> PyStr ''12422'', ''slots'' \<mapsto> PyStr ''1'', ''hostname'' \<mapsto> PyNone,
        ''hard_request'' \<mapsto>
           PyList [PyDict [(''vcs'', PyStr ''TRUE'')], PyDict [(''vcs_build'', PyStr ''TRUE'')]])"
  have init_T: "init scenario_job_type = scenario_defaults"
    by (simp add: scenario_job_type_def)
  have dflt: "init scenario_job_type ''tasks'' = Some (PyStr ''all'')"
    by (simp add: init_T scenario_defaults_def)
  have get: "getattr (from_xml_to_obj scenario_etree ''<job_list/>'' scenario_job_type) f = ?ob f"
    for f
    by (simp only: getattr_def scenario_object sum.case)
  have ty: "elem_type_of (text_entry g) = ''text''" for g
    by (simp add: elem_type_of_def)
  have mem: "(''tasks'', text_entry ''tasks'') \<in> set (MAPPINGS scenario_job_type)"
    "(''JB_job_number'', text_entry ''number'') \<in> set (MAPPINGS scenario_job_type)"
    "(''hard_request'', text_entry ''hard_request'') \<in> set (MAPPINGS scenario_job_type)"
    by (simp_all add: scenario_job_type_def)
  have unique_tasks: "\<forall>key' m'. (key', m') \<in> set (MAPPINGS scenario_job_type) \<longrightarrow>
      field m' = Some ''tasks'' \<longrightarrow> key' = ''tasks'' \<and> m' = text_entry ''tasks''"
    by (auto simp: scenario_job_type_def)
  have unique_number: "\<forall>key' m'. (key', m') \<in> set (MAPPINGS scenario_job_type) \<longrightarrow>
      field m' = Some ''number'' \<longrightarrow> key' = ''JB_job_number'' \<and> m' = text_entry ''number''"
    by (auto simp: scenario_job_type_def)
  have unique_request: "\<forall>key' m'. (key', m') \<in> set (MAPPINGS scenario_job_type) \<longrightarrow>
      field m' = Some ''hard_request'' \<longrightarrow>
      key' = ''hard_request'' \<and> m' = text_entry ''hard_request''"
    by (auto simp: scenario_job_type_def)
  from aggregation_rule [OF scenario_object mem(1) text_entry_simps(1) unique_tasks]
  have zero: "?ob ''tasks'' = Some (PyStr ''all'')"
  proof (elim exE conjE)
    fix xroot results vals
    assume "fromstring scenario_etree ''<job_list/>'' = Inr xroot"
      and "findall scenario_etree xroot ''tasks'' = Inr results"
      and "length vals = length results"
      and o: "?ob ''tasks'' = (case vals of [] \<Rightarrow> init scenario_job_type ''tasks''
          | [v] \<Rightarrow> Some v | _ \<Rightarrow> Some (PyList vals))"
    then have "vals = []"
      by (simp add: scenario_fromstring scenario_findall)
    with o dflt show ?thesis by simp
  qed
  from aggregation_rule [OF scenario_object mem(2) text_entry_simps(1) unique_number]
  have one: "?ob ''number'' = Some (PyStr ''12422'')"
  proof (elim exE conjE)
    fix xroot results vals
    assume x: "fromstring scenario_etree ''<job_list/>'' = Inr xroot"
      and r: "findall scenario_etree xroot ''JB_job_number'' = Inr results"
      and v: "transformation (text_entry ''number'') = None \<longrightarrow>
        vals = map (extract_input (elem_type_of (text_entry ''number''))) results"
      and o: "?ob ''number'' = (case vals of [] \<Rightarrow> init scenario_job_type ''number''
          | [v] \<Rightarrow> Some v | _ \<Rightarrow> Some (PyList vals))"
    from x r have "results = [Element ''JB_job_number'' [] (Some ''12422'') []]"
      by (simp add: scenario_fromstring scenario_findall)
    with v have "vals = [PyStr ''12422'']"
      by (simp add: ty extract_input_def text_input_def strip_scenario)
    with o show ?thesis by simp
  qed
  from aggregation_rule [OF scenario_object mem(3) text_entry_simps(1) unique_request]
  have many: "?ob ''hard_request''
      = Some (PyList [PyDict [(''vcs'', PyStr ''TRUE'')], PyDict [(''vcs_build'', PyStr ''TRUE'')]])
      \<and> subseq [vcs_request, vcs_build_request] (iter scenario_job_list)"
  proof (elim exE conjE)
    fix xroot results vals
    assume x: "fromstring scenario_etree ''<job_list/>'' = Inr xroot"
      and r: "findall scenario_etree xroot ''hard_request'' = Inr results"
      and p: "plain_tag ''hard_request'' \<longrightarrow>
        results = filter (\<lambda>e. tag e = ''hard_request'') (children xroot) \<and>
        subseq results (iter xroot)"
      and v: "transformation (text_entry ''hard_request'') = None \<longrightarrow>
        vals = map (extract_input (elem_type_of (text_entry ''hard_request''))) results"
      and o: "?ob ''hard_request'' = (case vals of [] \<Rightarrow> init scenario_job_type ''hard_request''
          | [v] \<Rightarrow> Some v | _ \<Rightarrow> Some (PyList vals))"
    from x have xr: "xroot = scenario_job_list"
      by (simp add: scenario_fromstring)
    from r have res: "results = [vcs_request, vcs_build_request]"
      by (simp add: xr scenario_findall)
    from p plain_tag_scenario(4) have "subseq results (iter xroot)"
      by (rule mp [THEN conjunct2])
    then have s: "subseq [vcs_request, vcs_build_request] (iter scenario_job_list)"
      by (simp only: xr res)
    from v have "vals = map (extract_input ''text'') [vcs_request, vcs_build_request]"
      by (simp add: ty res)
    moreover have "elem_text vcs_request = Some ''TRUE''"
      by (simp add: vcs_request_def)
    ultimately
    have "vals = [PyDict [(''vcs'', PyStr ''TRUE'')], PyDict [(''vcs_build'', PyStr ''TRUE'')]]"
      by (simp add: extract_input_def text_input_def strip_scenario scenario_attrib)
    with o have "?ob ''hard_request''
      = Some (PyList [PyDict [(''vcs'', PyStr ''TRUE'')], PyDict [(''vcs_build'', PyStr ''TRUE'')]])"
      by simp
    with s show ?thesis by (rule conjI [rotated])
  qed
  note order = many [THEN conjunct2]
  have ne: "Some (PyStr ''all'') \<noteq> Some PyNone"
    by simp
  from zero one many [THEN conjunct1] have
    "getattr (from_xml_to_obj scenario_etree ''<job_list/>'' scenario_job_type) ''tasks''
       = Some (PyStr ''all'')"
    "getattr (from_xml_to_obj scenario_etree ''<job_list/>'' scenario_job_type) ''number''
       = Some (PyStr ''12422'')"
    "getattr (from_xml_to_obj scenario_etree ''<job_list/>'' scenario_job_type) ''hard_request''
       = Some (PyList [PyDict [(''vcs'', PyStr ''TRUE'')], PyDict [(''vcs_build'', PyStr ''TRUE'')]])"
    by (simp_all only: get)
  with scenario_object scenario_findall(5) dflt ne scenario_findall(1) scenario_findall(4) order
  show ?thesis
    by (intro conjI)
qed

theorem aggregation_rule_counterexample:
  "(''a'', text_entry ''v'') \<in> set (MAPPINGS shared_field_type) \<and>
   (''c'', text_entry ''v'') \<in> set (MAPPINGS shared_field_type) \<and>
   field (text_entry ''v'') = Some ''v'' \<and>
   fromstring shared_field_etree ''<r><a>1</a><b>x</b><b>y</b></r>'' = Inr shared_field_root \<and>
   values_of shared_field_etree shared_field_root ''a'' (text_entry ''v'') = Inr [PyStr ''1''] \<and>
   values_of shared_field_etree shared_field_root ''c'' (text_entry ''v'') = Inr [] \<and>
   init shared_field_type ''v'' = Some (PyStr ''default'') \<and>
   getattr (from_xml_to_obj shared_field_etree ''<r><a>1</a><b>x</b><b>y</b></r>''
       shared_field_type) ''v''
     = Some (PyList [PyStr ''x'', PyStr ''y'']) \<and>
   Some (PyList [PyStr ''x'', PyStr ''y'']) \<noteq> Some (PyStr ''1'') \<and>
   Some (PyList [PyStr ''x'', PyStr ''y'']) \<noteq> Some (PyStr ''default'')"
proof -
  have "(''a'', text_entry ''v'') \<in> set (MAPPINGS shared_field_type)"
    "(''c'', text_entry ''v'') \<in> set (MAPPINGS shared_field_type)"
    "init shared_field_type ''v'' = Some (PyStr ''default'')"
    by (simp_all add: shared_field_type_def)
  moreover
  have "getattr (from_xml_to_obj shared_field_etree ''<r><a>1</a><b>x</b><b>y</b></r>''
      shared_field_type) ''v'' = Some (PyList [PyStr ''x'', PyStr ''y''])"
    by (simp add: getattr_def shared_field_object)
  moreover have "Some (PyList [PyStr ''x'', PyStr ''y'']) \<noteq> Some (PyStr ''1'')"
    "Some (PyList [PyStr ''x'', PyStr ''y'']) \<noteq> Some (PyStr ''default'')"
    by simp_all
  ultimately show ?thesis
    using text_entry_simps(1) [of "''v''"] shared_field_fromstring shared_field_values(1)
      shared_field_values(3)
    by (intro conjI)
qed

text \<open>
  C5 (as amended). For a source key that is a plain tag name, \<open>from_xml_to_obj\<close> finds
  and extracts the children of the root element that carry the tag, in document order;
  these are among the elements with the tag anywhere in the tree, and an element with
  the tag below a child of the root is not matched.
\<close>

theorem findall_plain_tag_children:
  assumes "plain_tag key"
  shows "findall ET xroot key = Inr (filter (\<lambda>e. tag e = key) (children xroot)) \<and>
         values_of ET xroot key m =
           collect_values (transformation m) (elem_type_of m)
             (filter (\<lambda>e. tag e = key) (children xroot)) [] \<and>
         subseq (filter (\<lambda>e. tag e = key) (children xroot)) (matching_anywhere xroot key)"
proof (intro conjI)
  show f: "findall ET xroot key = Inr (filter (\<lambda>e. tag e = key) (children xroot))"
    using assms by (simp add: findall_def)
  show "values_of ET xroot key m =
      collect_values (transformation m) (elem_type_of m)
        (filter (\<lambda>e. tag e = key) (children xroot)) []"
    by (simp add: values_of_def f)
  show "subseq (filter (\<lambda>e. tag e = key) (children xroot)) (matching_anywhere xroot key)"
    unfolding matching_anywhere_def
    using subseq_children_iter by (rule subseq_filter)
qed

theorem findall_plain_tag_children_witness:
  "plain_tag ''JB_job_number'' \<and>
   children scenario_job_list =
     [Element ''JB_job_number'' [] (Some ''12422'') [],
      Element ''queue_name'' [] None [],
      Element ''slots'' [] (Some ''1'') [],
      Element ''predecessors'' [] None [Element ''JB_job_number'' [] (Some ''12421'') []],
      vcs_request, vcs_build_request] \<and>
   findall scenario_etree scenario_job_list ''JB_job_number''
     = Inr [Element ''JB_job_number'' [] (Some ''12422'') []] \<and>
   values_of scenario_etree scenario_job_list ''JB_job_number'' (text_entry ''number'')
     = Inr [PyStr ''12422'']"
proof -
  have c: "children scenario_job_list =
     [Element ''JB_job_number'' [] (Some ''12422'') [],
      Element ''queue_name'' [] None [],
      Element ''slots'' [] (Some ''1'') [],
      Element ''predecessors'' [] None [Element ''JB_job_number'' [] (Some ''12421'') []],
      vcs_request, vcs_build_request]"
    by (simp add: scenario_job_list_def)
  have t: "tag vcs_request = ''hard_request''" "tag vcs_build_request = ''hard_request''"
    by (simp_all add: vcs_request_def vcs_build_request_def)
  from findall_plain_tag_children [OF plain_tag_scenario(1), of scenario_etree scenario_job_list
      "text_entry ''number''"]
  have "findall scenario_etree scenario_job_list ''JB_job_number''
      = Inr [Element ''JB_job_number'' [] (Some ''12422'') []]"
    and "values_of scenario_etree scenario_job_list ''JB_job_number'' (text_entry ''number'')
      = Inr [PyStr ''12422'']"
    by (simp_all add: c t transformed_def elem_type_of_def extract_input_def text_input_def
        strip_scenario)
  with plain_tag_scenario(1) c show ?thesis
    by (intro conjI)
qed

theorem findall_anywhere_counterexample:
  "fromstring scenario_etree ''<job_list/>'' = Inr scenario_job_list \<and>
   matching_anywhere scenario_job_list ''JB_job_number''
     = [Element ''JB_job_number'' [] (Some ''12422'') [],
        Element ''JB_job_number'' [] (Some ''12421'') []] \<and>
   findall scenario_etree scenario_job_list ''JB_job_number''
     = Inr [Element ''JB_job_number'' [] (Some ''12422'') []] \<and>
   getattr (from_xml_to_obj scenario_etree ''<job_list/>'' scenario_job_type) ''number''
     = Some (PyStr ''12422'') \<and>
   Some (PyStr ''12422'') \<noteq> Some (PyList [PyStr ''12422'', PyStr ''12421''])"
proof -
  have "matching_anywhere scenario_job_list ''JB_job_number''
     = [Element ''JB_job_number'' [] (Some ''12422'') [],
        Element ''JB_job_number'' [] (Some ''12421'') []]"
    by (simp add: matching_anywhere_def scenario_job_list_def vcs_request_def
        vcs_build_request_def)
  moreover
  have "getattr (from_xml_to_obj scenario_etree ''<job_list/>'' scenario_job_type) ''number''
     = Some (PyStr ''12422'')"
    by (simp add: getattr_def scenario_object)
  moreover have "Some (PyStr ''12422'') \<noteq> Some (PyList [PyStr ''12422'', PyStr ''12421''])"
    by simp
  ultimately show ?thesis
    using scenario_fromstring scenario_findall(1) by (intro conjI)
qed

text \<open>
  C8 (as amended). For a matched element under a mapping whose element type is not
  \<open>"xml"\<close>, the text taken from the element is its text content without the
  surrounding whitespace, and it is \<open>None\<close>, not the empty string, when the element
  has no text content; an element with a \<open>name\<close> attribute yields this text in a
  single-entry dictionary. Under the element type \<open>"xml"\<close> the value is the matched
  element itself. The value is handed to the transformation, when there is one, and
  becomes the value at the position of the element.
\<close>

theorem extracted_value_rule:
  assumes "values_of ET xroot key m = Inr vals"
    and "findall ET xroot key = Inr results"
    and "i < length results"
  shows "length vals = length results \<and>
         transformed (transformation m) (extract_input (elem_type_of m) (results ! i))
           = Inr (vals ! i) \<and>
         (elem_type_of m = ''xml'' \<longrightarrow>
            extract_input (elem_type_of m) (results ! i) = PyXml (results ! i)) \<and>
         (elem_type_of m \<noteq> ''xml'' \<longrightarrow>
            extract_input (elem_type_of m) (results ! i) =
              (case map_of (attrib (results ! i)) ''name'' of
                 None \<Rightarrow> text_input (results ! i)
               | Some n \<Rightarrow> PyDict [(n, text_input (results ! i))])) \<and>
         text_input (results ! i) =
           (case elem_text (results ! i) of None \<Rightarrow> PyNone | Some s \<Rightarrow> PyStr (strip s)) \<and>
         (\<forall>s. (\<exists>l r. s = l @ strip s @ r \<and> list_all isspace l \<and> list_all isspace r) \<and>
              (strip s \<noteq> [] \<longrightarrow> \<not> isspace (hd (strip s)) \<and> \<not> isspace (last (strip s))))"
proof (intro conjI impI allI)
  show "length vals = length results"
    using assms(1,2) by (rule values_of_nth(1))
  show "transformed (transformation m) (extract_input (elem_type_of m) (results ! i))
      = Inr (vals ! i)"
    using assms by (rule values_of_nth(2))
  show "text_input (results ! i) =
      (case elem_text (results ! i) of None \<Rightarrow> PyNone | Some s \<Rightarrow> PyStr (strip s))"
    by (rule text_input_strip)
next
  assume "elem_type_of m = ''xml''"
  then show "extract_input (elem_type_of m) (results ! i) = PyXml (results ! i)"
    by (simp add: extract_input_def)
next
  assume "elem_type_of m \<noteq> ''xml''"
  then show "extract_input (elem_type_of m) (results ! i) =
      (case map_of (attrib (results ! i)) ''name'' of
         None \<Rightarrow> text_input (results ! i)
       | Some n \<Rightarrow> PyDict [(n, text_input (results ! i))])"
    by (simp add: extract_input_def split: option.split)
next
  fix s
  show "\<exists>l r. s = l @ strip s @ r \<and> list_all isspace l \<and> list_all isspace r"
    by (rule strip_decomp)
next
  fix s
  assume "strip s \<noteq> []"
  then show "\<not> isspace (hd (strip s))" "\<not> isspace (last (strip s))"
    by (rule strip_ends(1), rule strip_ends(2))
qed

theorem extracted_value_rule_witness:
  "values_of scenario_etree scenario_job_list ''queue_name'' (text_entry ''hostname'')
     = Inr [PyNone] \<and>
   findall scenario_etree scenario_job_list ''queue_name''
     = Inr [Element ''queue_name'' [] None []] \<and>
   elem_type_of (text_entry ''hostname'') \<noteq> ''xml'' \<and>
   extract_input (elem_type_of (text_entry ''hostname'')) (Element ''queue_name'' [] None [])
     = PyNone \<and>
   strip '' TRUE '' = ''TRUE'' \<and>
   (\<exists>l r. '' TRUE '' = l @ strip '' TRUE '' @ r \<and> list_all isspace l \<and> list_all isspace r) \<and>
   \<not> isspace (hd (strip '' TRUE '')) \<and> \<not> isspace (last (strip '' TRUE ''))"
proof -
  have i: "(0::nat) < length [Element ''queue_name'' [] None []]"
    by simp
  have ty: "elem_type_of (text_entry ''hostname'') \<noteq> ''xml''"
    by (simp add: elem_type_of_def)
  have ne: "strip '' TRUE '' \<noteq> []"
    by (simp add: strip_scenario)
  note th = extracted_value_rule [OF scenario_values(3) scenario_findall(3) i]
  from th ty
  have "extract_input (elem_type_of (text_entry ''hostname'')) (Element ''queue_name'' [] None [])
      = PyNone"
    by simp
  moreover from th
  have "\<exists>l r. '' TRUE '' = l @ strip '' TRUE '' @ r \<and> list_all isspace l \<and> list_all isspace r"
    by blast
  moreover from th ne
  have "\<not> isspace (hd (strip '' TRUE ''))" "\<not> isspace (last (strip '' TRUE ''))"
    by blast+
  ultimately show ?thesis
    using scenario_values(3) scenario_findall(3) ty strip_scenario(4)
    by (intro conjI)
qed

theorem extracted_value_rule_counterexample:
  "findall scenario_etree scenario_job_list ''queue_name''
     = Inr [Element ''queue_name'' [] None []] \<and>
   elem_text (Element ''queue_name'' [] None []) = None \<and>
   elem_type_of (text_entry ''hostname'') = ''text'' \<and>
   extract_input ''text'' (Element ''queue_name'' [] None []) = PyNone \<and>
   getattr (from_xml_to_obj scenario_etree ''<job_list/>'' scenario_job_type) ''hostname''
     = Some PyNone \<and>
   PyNone \<noteq> PyStr ''''"
proof -
  have "extract_input ''text'' (Element ''queue_name'' [] None []) = PyNone"
    by (simp add: extract_input_def text_input_def)
  moreover
  have "getattr (from_xml_to_obj scenario_etree ''<job_list/>'' scenario_job_type) ''hostname''
      = Some PyNone"
    by (simp add: getattr_def scenario_object)
  moreover have "elem_type_of (text_entry ''hostname'') = ''text''"
    by (simp add: elem_type_of_def)
  moreover have "elem_text (Element ''queue_name'' [] None []) = None"
    by simp
  moreover have "PyNone \<noteq> PyStr ''''"
    by simp
  ultimately show ?thesis
    using scenario_findall(3) by (intro conjI)
qed

text \<open>
  C9. For a table of fewer than two lines, \<open>from_table_to_obj_list\<close> returns the empty
  list and raises nothing, whatever the record type and the separator.
\<close>

theorem short_table_no_records:
  assumes "length (splitlines table) < 2"
  shows "from_table_to_obj_list table T separator = Inr []"
  using assms by (simp add: from_table_to_obj_list_def Let_def)

theorem short_table_no_records_witness:
  "splitlines ''Name|Slots'' = [''Name|Slots''] \<and>
   length (splitlines ''Name|Slots'') < 2 \<and>
   from_table_to_obj_list ''Name|Slots'' scenario_job_type ''|'' = Inr [] \<and>
   from_table_to_obj_list ''Name|Slots'' scenario_job_type [] = Inr [] \<and>
   splitlines [] = [] \<and>
   from_table_to_obj_list [] scenario_job_type ''|'' = Inr []"
proof -
  have l1: "splitlines ''Name|Slots'' = [''Name|Slots'']"
    by (simp add: splitlines_def linebreak_def)
  have l0: "splitlines [] = []"
    by (simp add: splitlines_def)
  have s1: "length (splitlines ''Name|Slots'') < 2"
    by (simp add: l1)
  have s0: "length (splitlines []) < 2"
    by (simp add: l0)
  from short_table_no_records [OF s1] short_table_no_records [OF s0] l1 l0 s1
  show ?thesis by simp
qed

end
